theory Spec2Isabelle
  imports Complex_Main "HOL-Library.Sublist"
begin

section \<open>JavaScript numbers and strings\<close>

text \<open>
  The library \<^verbatim>\<open>lib/node-progress.js\<close> computes with JavaScript numbers. They are
  modelled as exact rationals extended by the three special values of IEEE arithmetic
  that the program can produce and test for. The rounding of binary floating point, the
  sign of zero and overflow to infinity are not modelled: a finite result is the exact
  rational result. The model is the program wherever the program's arithmetic is exact:
  sums and differences of integers of magnitude at most \<open>2^53\<close>, comparisons, floors,
  and quotients and products whose exact value is a binary fraction of at most 53
  bits. A theorem that rests on the value of a sum, a quotient or a product says in
  its hypotheses which numbers it is about.
\<close>

datatype jsnum = Fin rat | PInf | NInf | NaN

fun js_neg :: "jsnum \<Rightarrow> jsnum" where
  "js_neg (Fin a) = Fin (- a)"
| "js_neg PInf = NInf"
| "js_neg NInf = PInf"
| "js_neg NaN = NaN"

fun js_add :: "jsnum \<Rightarrow> jsnum \<Rightarrow> jsnum" where
  "js_add (Fin a) (Fin b) = Fin (a + b)"
| "js_add NaN y = NaN"
| "js_add x NaN = NaN"
| "js_add PInf NInf = NaN"
| "js_add NInf PInf = NaN"
| "js_add PInf y = PInf"
| "js_add x PInf = PInf"
| "js_add NInf y = NInf"
| "js_add x NInf = NInf"

definition js_sub :: "jsnum \<Rightarrow> jsnum \<Rightarrow> jsnum" where
  "js_sub x y = js_add x (js_neg y)"

text \<open>The sign of a number that is not NaN: \<open>-1\<close>, \<open>0\<close> or \<open>1\<close>.\<close>

fun js_sign :: "jsnum \<Rightarrow> int" where
  "js_sign (Fin a) = (if a < 0 then -1 else if a = 0 then 0 else 1)"
| "js_sign PInf = 1"
| "js_sign NInf = -1"
| "js_sign NaN = 0"

definition inf_of_sign :: "int \<Rightarrow> jsnum" where
  "inf_of_sign s = (if s = 0 then NaN else if 0 < s then PInf else NInf)"

fun js_mul :: "jsnum \<Rightarrow> jsnum \<Rightarrow> jsnum" where
  "js_mul (Fin a) (Fin b) = Fin (a * b)"
| "js_mul NaN y = NaN"
| "js_mul x NaN = NaN"
| "js_mul x y = inf_of_sign (js_sign x * js_sign y)"

text \<open>
  Division: a finite number divided by zero is an infinity of the sign of the dividend,
  \<open>0 / 0\<close> is NaN, and an infinity divided by a finite number keeps its magnitude (the
  divisor zero counts as positive, since the sign of zero is not modelled).
\<close>

fun js_div :: "jsnum \<Rightarrow> jsnum \<Rightarrow> jsnum" where
  "js_div (Fin a) (Fin b) = (if b = 0 then inf_of_sign (js_sign (Fin a)) else Fin (a / b))"
| "js_div NaN y = NaN"
| "js_div x NaN = NaN"
| "js_div (Fin a) y = Fin 0"
| "js_div x (Fin b) = inf_of_sign (js_sign x * (if b < 0 then -1 else 1))"
| "js_div x y = NaN"

fun js_floor :: "jsnum \<Rightarrow> jsnum" where
  "js_floor (Fin a) = Fin (of_int \<lfloor>a\<rfloor>)"
| "js_floor x = x"

text \<open>\<^verbatim>\<open>Math.round\<close> rounds to the nearest integer, a tie toward positive infinity.\<close>

fun js_round :: "jsnum \<Rightarrow> jsnum" where
  "js_round (Fin a) = Fin (of_int \<lfloor>a + 1 / 2\<rfloor>)"
| "js_round x = x"

text \<open>The relational operators; every comparison with NaN is false.\<close>

fun js_gt :: "jsnum \<Rightarrow> jsnum \<Rightarrow> bool" where
  "js_gt NaN y = False"
| "js_gt x NaN = False"
| "js_gt (Fin a) (Fin b) = (b < a)"
| "js_gt PInf y = (y \<noteq> PInf)"
| "js_gt NInf y = False"
| "js_gt (Fin a) PInf = False"
| "js_gt (Fin a) NInf = True"

definition js_lt :: "jsnum \<Rightarrow> jsnum \<Rightarrow> bool" where
  "js_lt x y = js_gt y x"

text \<open>Strict equality \<^verbatim>\<open>===\<close> on numbers: NaN is not equal to itself.\<close>

definition js_seq :: "jsnum \<Rightarrow> jsnum \<Rightarrow> bool" where
  "js_seq x y = (x \<noteq> NaN \<and> x = y)"

text \<open>\<^verbatim>\<open>Math.max\<close> and \<^verbatim>\<open>Math.min\<close> of two numbers: NaN if either is NaN.\<close>

definition js_max :: "jsnum \<Rightarrow> jsnum \<Rightarrow> jsnum" where
  "js_max x y = (if x = NaN \<or> y = NaN then NaN else if js_gt y x then y else x)"

definition js_min :: "jsnum \<Rightarrow> jsnum \<Rightarrow> jsnum" where
  "js_min x y = (if x = NaN \<or> y = NaN then NaN else if js_gt x y then y else x)"

text \<open>A number is falsy when it is zero or NaN.\<close>

definition truthy :: "jsnum \<Rightarrow> bool" where
  "truthy x = (x \<noteq> Fin 0 \<and> x \<noteq> NaN)"

subsection \<open>Numbers as strings\<close>

text \<open>
  Strings are lists of code units. \<^verbatim>\<open>ToString\<close> of a number gives the decimal digits
  of an integer; of another finite number its decimal expansion, of which at most 17
  fraction digits are produced (exact for the decimal fractions that the program
  computes by \<^verbatim>\<open>Math.floor(x * 10) / 10\<close>; exponent notation is not modelled).
\<close>

definition digit :: "nat \<Rightarrow> char" where
  "digit d = ''0123456789'' ! (d mod 10)"

fun show_nat :: "nat \<Rightarrow> string" where
  "show_nat n = (if n < 10 then [digit n] else show_nat (n div 10) @ [digit n])"

declare show_nat.simps [simp del]

definition show_int :: "int \<Rightarrow> string" where
  "show_int i = (if i < 0 then CHR ''-'' # show_nat (nat (- i)) else show_nat (nat i))"

fun frac_digits :: "nat \<Rightarrow> rat \<Rightarrow> string" where
  "frac_digits 0 r = []"
| "frac_digits (Suc k) r =
     (if r = 0 then []
      else digit (nat \<lfloor>r * 10\<rfloor>) # frac_digits k (r * 10 - of_int \<lfloor>r * 10\<rfloor>))"

definition show_rat :: "rat \<Rightarrow> string" where
  "show_rat q =
     (if q = of_int \<lfloor>q\<rfloor> then show_int \<lfloor>q\<rfloor>
      else (if q < 0 then ''-'' else []) @ show_nat (nat \<lfloor>\<bar>q\<bar>\<rfloor>) @ ''.'' @
           frac_digits 17 (\<bar>q\<bar> - of_int \<lfloor>\<bar>q\<bar>\<rfloor>))"

fun js_num_str :: "jsnum \<Rightarrow> string" where
  "js_num_str (Fin q) = show_rat q"
| "js_num_str PInf = ''Infinity''"
| "js_num_str NInf = ''-Infinity''"
| "js_num_str NaN = ''NaN''"

text \<open>
  \<^verbatim>\<open>x.toFixed(0)\<close>: the nearest integer, a tie away from zero, with the sign of \<open>x\<close>
  (so \<^verbatim>\<open>(-0.4).toFixed(0)\<close> is \<^verbatim>\<open>"-0"\<close>).
\<close>

fun toFixed0 :: "jsnum \<Rightarrow> string" where
  "toFixed0 (Fin q) = (if q < 0 then ''-'' else []) @ show_nat (nat \<lfloor>\<bar>q\<bar> + 1 / 2\<rfloor>)"
| "toFixed0 x = js_num_str x"

subsection \<open>String replacement\<close>

text \<open>
  \<^verbatim>\<open>str.replace(pattern, replacement)\<close> with a string pattern replaces the first
  occurrence of the pattern only. \<open>js_find\<close> splits a string at the first occurrence.
\<close>

fun js_find :: "string \<Rightarrow> string \<Rightarrow> (string \<times> string) option" where
  "js_find pat [] = (if pat = [] then Some ([], []) else None)"
| "js_find pat (c # cs) =
     (if prefix pat (c # cs) then Some ([], drop (length pat) (c # cs))
      else map_option (\<lambda>(a, b). (c # a, b)) (js_find pat cs))"

text \<open>
  The replacement string is expanded as \<^verbatim>\<open>GetSubstitution\<close> prescribes: \<^verbatim>\<open>$$\<close> is a
  dollar sign, \<^verbatim>\<open>$&\<close> the matched text, \<^verbatim>\<open>$`\<close> the text before the match and
  \<^verbatim>\<open>$'\<close> the text after it. With a string pattern there are no capture groups, so
  every other use of the dollar sign stands for itself.
\<close>

fun get_substitution :: "string \<Rightarrow> string \<Rightarrow> string \<Rightarrow> string \<Rightarrow> string" where
  "get_substitution m b a [] = []"
| "get_substitution m b a [c] = [c]"
| "get_substitution m b a (c # d # r) =
     (if c = CHR ''$'' then
        (if d = CHR ''$'' then CHR ''$'' # get_substitution m b a r
         else if d = CHR ''&'' then m @ get_substitution m b a r
         else if d = CHR 0x60 then b @ get_substitution m b a r
         else if d = CHR 0x27 then a @ get_substitution m b a r
         else c # get_substitution m b a (d # r))
      else c # get_substitution m b a (d # r))"

definition js_replace :: "string \<Rightarrow> string \<Rightarrow> string \<Rightarrow> string" where
  "js_replace s pat rep =
     (case js_find pat s of
        None \<Rightarrow> s
      | Some (b, a) \<Rightarrow> b @ get_substitution pat b a rep @ a)"

section \<open>The data of a progress bar\<close>

text \<open>
  An option of the constructor is absent (\<open>None\<close>, JavaScript's \<^verbatim>\<open>undefined\<close>) or a
  value of the type the documentation gives it. Only \<^verbatim>\<open>total\<close> is tested with
  \<^verbatim>\<open>typeof\<close>, so it may be any value. The hooks \<^verbatim>\<open>onStart\<close>, \<^verbatim>\<open>onTick\<close>,
  \<^verbatim>\<open>onUpdate\<close> and \<^verbatim>\<open>onComplete\<close> are functions of the caller (no-ops when absent):
  a call of a hook is recorded as an event, and a hook is taken not to touch the bar.
  The stream is a terminal: its methods exist, and their calls are recorded as events.
\<close>

datatype jsval = JUndefined | JNull | JBoolean bool | JNumber jsnum | JString string

datatype error = Error string | TypeError | RangeError

record Options =
  opt_total :: jsval
  opt_format :: "string option"
  opt_width :: "jsnum option"
  opt_complete :: "string option"
  opt_incomplete :: "string option"
  opt_head :: "string option"
  opt_debounce :: "jsnum option"
  opt_onTickFmt :: "string option"
  opt_justMe :: "bool option"
  opt_noRender :: "bool option"
  opt_clear :: "bool option"
  opt_title :: "string option"
  opt_logResult :: "bool option"
  opt_delay :: "jsnum option"

record Report =
  report_title :: string
  barId :: nat
  counted :: jsnum
  expected :: jsnum
  totalTime :: string
  precisionTotalTime :: jsnum
  sampledOpsPerSec :: jsnum
  generalOpsPerSec :: jsnum

text \<open>
  The instance. \<open>timeSamples\<close> is the closure variable of the constructor that only the
  sample timer of the instance reads and writes; \<open>writeLimit\<close> is \<open>None\<close> for
  \<^verbatim>\<open>null\<close> and the handle of the pending timeout otherwise; \<open>complete\<close> is false
  while the property is undefined; \<open>report\<close> is \<open>None\<close> while it is the empty object.
\<close>

record ProgressBar =
  ident :: nat
  fmt :: string
  curr :: jsnum
  total :: jsnum
  width :: jsnum
  chars_complete :: string
  chars_incomplete :: string
  chars_head :: string
  debounceLimit :: "jsnum option"
  elapsedTime :: jsnum
  opsPerSec :: jsnum
  totalOpsPerSec :: jsnum
  startTime :: int
  writeLimit :: "nat option"
  report :: "Report option"
  onTickFmt :: string
  justMe :: bool
  noRender :: bool
  percent :: jsval
  sample :: jsnum
  timeSamples :: "jsnum list"
  lastDraw :: string
  clear :: bool
  title :: string
  logResult :: bool
  delay :: jsnum
  complete :: bool

datatype logarg = LStr string | LReport "Report option"

datatype event =
    StreamWrite nat string
  | StreamClearLine nat "nat option"
  | StreamCursorTo nat nat
  | ConsoleLog "logarg list"
  | OnStart nat
  | OnTick nat string
  | OnUpdate nat
  | OnComplete nat

text \<open>
  What the program reads from its surroundings at a call: the column count of the
  stream (\<^verbatim>\<open>me.stream.columns\<close> as the number it converts to, NaN when the stream is
  not a terminal and the property is undefined), the platform, and the clock
  \<^verbatim>\<open>process.hrtime()\<close> in nanoseconds.
\<close>

record Env =
  columns :: jsnum
  win32 :: bool
  hrtime :: int

text \<open>
  The module state and the event loop: the counter \<^verbatim>\<open>barInc\<close>, the list
  \<^verbatim>\<open>bars\<close>, the cache \<^verbatim>\<open>barLines\<close> (an object with integer keys, which
  \<^verbatim>\<open>Object.keys\<close> lists in ascending order; the instance an entry refers to is the
  one of that id), the instances by id, the armed sample timers (by instance), the
  pending timeouts (handle and instance) and the events so far.
\<close>

record World =
  barInc :: nat
  bars :: "nat list"
  barLines :: "(nat \<times> string) list"
  heap :: "nat \<Rightarrow> ProgressBar option"
  intervals :: "nat list"
  timeouts :: "(nat \<times> nat) list"
  nextTimer :: nat
  events :: "event list"

definition emit :: "World \<Rightarrow> event list \<Rightarrow> World" where
  "emit w es = w\<lparr>events := events w @ es\<rparr>"

definition newLine :: string where
  "newLine = CHR 0x1B # ''[1B''"

section \<open>Timing and formatting\<close>

definition timeDiff :: "Env \<Rightarrow> int \<Rightarrow> jsnum" where
  "timeDiff env start =
     (let d = hrtime env - start;
          diff0 = d div 1000000000;
          diff1 = d mod 1000000000
      in js_div (js_add (js_mul (Fin (of_int diff0)) (Fin 1000000000)) (Fin (of_int diff1)))
           (Fin 1000000000))"

definition secondsToMin :: "jsnum \<Rightarrow> string" where
  "secondsToMin sec =
     (let hour = js_mul (Fin 60) (Fin 60);
          mn = Fin 60;
          totalTimeHr = js_floor (js_div sec hour);
          totalTimeMin = js_floor (js_div (js_sub sec (js_mul totalTimeHr hour)) mn);
          totalTimeSec =
            js_floor (js_sub (js_sub sec (js_mul totalTimeMin mn)) (js_mul totalTimeHr hour))
      in (if js_gt totalTimeHr (Fin 0) then js_num_str totalTimeHr @ ''hr '' else []) @
         js_num_str totalTimeMin @ ''min '' @ js_num_str totalTimeSec @ ''sec'')"

definition elapsed :: "Env \<Rightarrow> ProgressBar \<Rightarrow> ProgressBar \<times> string" where
  "elapsed env me =
     (let t = timeDiff env (startTime me)
      in (me\<lparr>totalOpsPerSec := js_div (js_floor (js_mul (js_div (curr me) t) (Fin 10))) (Fin 10),
              elapsedTime := t\<rparr>,
          secondsToMin (js_div (js_floor (js_mul t (Fin 1000))) (Fin 1000))))"

definition timeRemaining :: "ProgressBar \<Rightarrow> string" where
  "timeRemaining me =
     (let ticksLeft = js_sub (total me) (curr me);
          timeLeft = js_div ticksLeft (opsPerSec me);
          timeLeft = (if js_seq timeLeft PInf then Fin 0 else timeLeft)
      in secondsToMin timeLeft)"

text \<open>
  \<^verbatim>\<open>Array(n).join(s)\<close>: \<open>n - 1\<close> copies of \<open>s\<close>; \<^verbatim>\<open>Array(n)\<close> throws a RangeError
  unless \<open>n\<close> is an integer from 0 to \<open>2^32 - 1\<close>.
\<close>

definition array_join :: "jsnum \<Rightarrow> string \<Rightarrow> error + string" where
  "array_join n s =
     (case n of
        Fin q \<Rightarrow>
          if q = of_int \<lfloor>q\<rfloor> \<and> 0 \<le> q \<and> q \<le> 4294967295
          then Inr (concat (replicate (nat \<lfloor>q\<rfloor> - 1) s))
          else Inl RangeError
      | _ \<Rightarrow> Inl RangeError)"

text \<open>
  The chain of \<^verbatim>\<open>replace\<close> calls of \<^verbatim>\<open>doFormat\<close> before the bar is built, as the
  list of its patterns and replacements in the order of the calls.
\<close>

definition substitutions :: "ProgressBar \<Rightarrow> jsnum \<Rightarrow> string \<Rightarrow> (string \<times> string) list" where
  "substitutions me pct el =
     [ ('':c[blue]'', CHR 0x1B # ''[1;34m''),
       ('':c[white]'', CHR 0x1B # ''[1;37m''),
       ('':c[yellow]'', CHR 0x1B # ''[1;33m''),
       ('':c[red]'', CHR 0x1B # ''[1;31m''),
       ('':c[none]'', CHR 0x1B # ''[0m''),
       ('':nl'', newLine),
       ('':current'', js_num_str (curr me)),
       ('':total'', js_num_str (total me)),
       ('':elapsed'', el),
       ('':eta'', timeRemaining me),
       ('':percent'', toFixed0 pct @ ''%''),
       ('':opsec'', js_num_str (opsPerSec me)) ]"

definition replace_chain :: "string \<Rightarrow> (string \<times> string) list \<Rightarrow> string" where
  "replace_chain format subs = foldl (\<lambda>s (tok, v). js_replace s tok v) format subs"

text \<open>
  \<^verbatim>\<open>doFormat\<close>, in the order of its statements: the percentage and the clamped ratio,
  the chain of replacements, the width of the bar, the number of complete glyphs, the
  two runs of glyphs with the head, and the replacement of \<^verbatim>\<open>:bar\<close>.
\<close>

definition bar_percent :: "ProgressBar \<Rightarrow> jsnum" where
  "bar_percent me = js_mul (js_div (curr me) (total me)) (Fin 100)"

definition bar_ratio :: "ProgressBar \<Rightarrow> jsnum" where
  "bar_ratio me = js_min (js_max (js_div (curr me) (total me)) (Fin 0)) (Fin 1)"

definition bar_width :: "Env \<Rightarrow> ProgressBar \<Rightarrow> string \<Rightarrow> jsnum" where
  "bar_width env me str =
     (let availableSpace =
            js_max (Fin 0)
              (js_sub (columns env) (Fin (of_nat (length (js_replace str '':bar'' [])))));
          availableSpace =
            (if truthy availableSpace \<and> win32 env then js_sub availableSpace (Fin 1)
             else availableSpace)
      in js_min (width me) availableSpace)"

definition complete_length :: "jsnum \<Rightarrow> jsnum \<Rightarrow> jsnum" where
  "complete_length wd ratio =
     (let completeLength = js_round (js_mul wd ratio)
      in if \<not> truthy completeLength then Fin 0 else completeLength)"

definition build_bar :: "ProgressBar \<Rightarrow> jsnum \<Rightarrow> jsnum \<Rightarrow> error + string" where
  "build_bar me wd completeLength =
     (case array_join (js_max (Fin 0) (js_add completeLength (Fin 1))) (chars_complete me) of
        Inl e \<Rightarrow> Inl e
      | Inr cs \<Rightarrow>
          (case array_join (js_max (Fin 0) (js_add (js_sub wd completeLength) (Fin 1)))
                  (chars_incomplete me) of
             Inl e \<Rightarrow> Inl e
           | Inr incomplete \<Rightarrow>
               Inr ((if js_gt completeLength (Fin 0) then butlast cs @ chars_head me else cs) @
                    incomplete)))"

definition format_tokens :: "Env \<Rightarrow> ProgressBar \<Rightarrow> string \<Rightarrow> string" where
  "format_tokens env me format =
     replace_chain format (substitutions me (bar_percent me) (snd (elapsed env me)))"

definition doFormat :: "Env \<Rightarrow> ProgressBar \<Rightarrow> string \<Rightarrow> ProgressBar \<times> (error + string)" where
  "doFormat env me format =
     (let me1 = me\<lparr>percent := JString (toFixed0 (bar_percent me))\<rparr>;
          me2 = fst (elapsed env me1);
          str = format_tokens env me1 format;
          wd = bar_width env me2 str
      in case build_bar me2 wd (complete_length wd (bar_ratio me)) of
           Inl e \<Rightarrow> (me2, Inl e)
         | Inr bar \<Rightarrow> (me2, Inr (js_replace str '':bar'' bar)))"

section \<open>Rendering\<close>

text \<open>Assignment to a key of \<^verbatim>\<open>barLines\<close>; the keys stay in ascending order.\<close>

fun put_line :: "nat \<Rightarrow> string \<Rightarrow> (nat \<times> string) list \<Rightarrow> (nat \<times> string) list" where
  "put_line k v [] = [(k, v)]"
| "put_line k v ((k', v') # xs) =
     (if k = k' then (k, v) # xs
      else if k < k' then (k, v) # (k', v') # xs
      else (k', v') # put_line k v xs)"

text \<open>
  The \<^verbatim>\<open>forEach\<close> of \<^verbatim>\<open>doRender\<close> over the keys of \<^verbatim>\<open>barLines\<close>: every cached
  instance with \<^verbatim>\<open>justMe\<close> gets the delay of the rendering instance as its debounce
  limit, and the titles and cached frames are stacked into one string.
\<close>

fun stack_lines ::
  "jsnum \<Rightarrow> (nat \<times> string) list \<Rightarrow> (nat \<Rightarrow> ProgressBar option) \<times> string \<Rightarrow>
   (nat \<Rightarrow> ProgressBar option) \<times> string" where
  "stack_lines d [] acc = acc"
| "stack_lines d ((item, s) # xs) (h, bigStr) =
     (case h item of
        None \<Rightarrow> stack_lines d xs (h, bigStr)
      | Some b \<Rightarrow>
          (let b' = (if justMe b then b\<lparr>debounceLimit := Some d\<rparr> else b)
           in stack_lines d xs (h(item \<mapsto> b'), bigStr @ title b' @ s @ newLine @ '' '')))"

text \<open>
  \<^verbatim>\<open>doRender\<close>, in three parts: the frame is formatted; it is cached in
  \<^verbatim>\<open>barLines\<close> and, when more than one instance is cached, the frames are stacked
  (\<open>stack_bars\<close>); the line is written unless the frame is the one last drawn or the
  instance is complete (\<open>draw\<close>).
\<close>

definition stack_bars :: "nat \<Rightarrow> string \<Rightarrow> World \<Rightarrow> World \<times> string" where
  "stack_bars i str w =
     (case heap w i of
        None \<Rightarrow> (w, str)
      | Some me \<Rightarrow>
          (let ls = put_line i str (barLines w)
           in if length ls > 1
              then (w\<lparr>barLines := ls, heap := fst (stack_lines (delay me) ls (heap w, []))\<rparr>,
                    snd (stack_lines (delay me) ls (heap w, [])))
              else (w\<lparr>barLines := ls\<rparr>, str)))"

definition draw :: "nat \<Rightarrow> string \<Rightarrow> string \<Rightarrow> World \<Rightarrow> World" where
  "draw i str bigStr w =
     (case heap w i of
        None \<Rightarrow> w
      | Some me \<Rightarrow>
          if lastDraw me \<noteq> str \<and> \<not> complete me
          then emit (w\<lparr>heap := (heap w)(i \<mapsto> me\<lparr>lastDraw := str\<rparr>)\<rparr>)
                 [StreamClearLine i (Some 1), StreamCursorTo i 0,
                  StreamWrite i (if justMe me then str else bigStr)]
          else w)"

definition doRender :: "Env \<Rightarrow> nat \<Rightarrow> World \<Rightarrow> World \<times> error option" where
  "doRender env i w =
     (case heap w i of
        None \<Rightarrow> (w, None)
      | Some me \<Rightarrow>
          if noRender me then (w, None)
          else
            (case snd (doFormat env me (title me @ '' '' @ fmt me)) of
               Inl e \<Rightarrow>
                 (w\<lparr>heap := (heap w)(i \<mapsto> fst (doFormat env me (title me @ '' '' @ fmt me)))\<rparr>,
                  Some e)
             | Inr str \<Rightarrow>
                 (let w1 = w\<lparr>heap := (heap w)(i \<mapsto> fst (doFormat env me (title me @ '' '' @ fmt me)))\<rparr>
                  in (draw i str (snd (stack_bars i str w1)) (fst (stack_bars i str w1)), None))))"

section \<open>Completion\<close>

definition terminate :: "nat \<Rightarrow> World \<Rightarrow> World" where
  "terminate i w =
     (case heap w i of
        None \<Rightarrow> w
      | Some me \<Rightarrow>
          if clear me then emit w [StreamClearLine i None, StreamCursorTo i 0]
          else emit w [StreamWrite i [CHR 0x0A]])"

definition buildReport :: "nat \<Rightarrow> World \<Rightarrow> World" where
  "buildReport i w =
     (case heap w i of
        None \<Rightarrow> w
      | Some me \<Rightarrow>
          w\<lparr>heap := (heap w)(i \<mapsto> me\<lparr>report := Some
              \<lparr>report_title = title me,
               barId = ident me,
               counted = curr me,
               expected = total me,
               totalTime = secondsToMin (elapsedTime me),
               precisionTotalTime = elapsedTime me,
               sampledOpsPerSec = opsPerSec me,
               generalOpsPerSec = totalOpsPerSec me\<rparr>\<rparr>)\<rparr>)"

definition logReport :: "nat \<Rightarrow> World \<Rightarrow> World" where
  "logReport i w =
     (case heap w i of
        None \<Rightarrow> w
      | Some me \<Rightarrow>
          emit w [ConsoleLog [LStr newLine],
                  ConsoleLog [LStr ''Ready: '', LStr (title me)],
                  ConsoleLog [LReport (report me)],
                  ConsoleLog [LStr newLine]])"

definition set_complete :: "nat \<Rightarrow> World \<Rightarrow> World" where
  "set_complete i w =
     (case heap w i of
        None \<Rightarrow> w
      | Some me \<Rightarrow> w\<lparr>heap := (heap w)(i \<mapsto> me\<lparr>complete := True\<rparr>)\<rparr>)"

text \<open>
  \<^verbatim>\<open>render\<close>; \<open>finish\<close> is its branch of completion. There, \<^verbatim>\<open>this.writeLimit.clearTimeout()\<close> throws a
  TypeError whatever \<^verbatim>\<open>writeLimit\<close> is (\<^verbatim>\<open>null\<close> has no properties and a timer
  handle has no method of that name), and the \<^verbatim>\<open>try\<close> swallows it: the statement
  changes nothing, and a pending timeout stays pending. The hook \<^verbatim>\<open>onComplete\<close> is a
  function, so the test of its type succeeds.
\<close>

definition finish :: "Env \<Rightarrow> nat \<Rightarrow> World \<Rightarrow> World \<times> error option" where
  "finish env i w =
     (case doRender env i (w\<lparr>intervals := removeAll i (intervals w)\<rparr>) of
        (w1, Some e) \<Rightarrow> (w1, Some e)
      | (w1, None) \<Rightarrow>
          (let w2 = set_complete i (emit (terminate i (buildReport i w1)) [OnComplete i])
           in (if (case heap w2 i of None \<Rightarrow> False | Some b \<Rightarrow> logResult b)
               then logReport i w2 else w2, None)))"

definition render :: "Env \<Rightarrow> nat \<Rightarrow> World \<Rightarrow> World \<times> error option" where
  "render env i w =
     (case heap w i of
        None \<Rightarrow> (w, None)
      | Some me \<Rightarrow>
          if js_seq (curr me) (total me) then finish env i w
          else if \<not> (case debounceLimit me of None \<Rightarrow> False | Some d \<Rightarrow> truthy d) then
            doRender env i w
          else if writeLimit me \<noteq> None then (w, None)
          else
            (w\<lparr>heap := (heap w)(i \<mapsto> me\<lparr>writeLimit := Some (nextTimer w)\<rparr>),
               timeouts := timeouts w @ [(nextTimer w, i)],
               nextTimer := Suc (nextTimer w)\<rparr>, None))"

section \<open>Advancing the bar\<close>

text \<open>
  The length of a tick: \<^verbatim>\<open>if (len !== 0) len = len || 1\<close>. An absent argument and NaN
  become 1; zero stays zero.
\<close>

definition tick_len :: "jsnum option \<Rightarrow> jsnum" where
  "tick_len len =
     (case len of
        None \<Rightarrow> Fin 1
      | Some x \<Rightarrow> if x \<noteq> Fin 0 then (if truthy x then x else Fin 1) else x)"

definition tick :: "Env \<Rightarrow> nat \<Rightarrow> jsnum option \<Rightarrow> World \<Rightarrow> World \<times> error option" where
  "tick env i len w =
     (case heap w i of
        None \<Rightarrow> (w, None)
      | Some me \<Rightarrow>
          (let l = tick_len len;
               me1 = me\<lparr>sample := js_add (sample me) l\<rparr>;
               me2 = me1\<lparr>curr := js_add (curr me1) l\<rparr>
           in if js_gt (curr me2) (total me2)
              then (w\<lparr>heap := (heap w)(i \<mapsto> me2\<lparr>complete := True\<rparr>)\<rparr>, None)
              else
                (case snd (doFormat env me2 (onTickFmt me2)) of
                   Inl e \<Rightarrow>
                     (w\<lparr>heap := (heap w)(i \<mapsto> fst (doFormat env me2 (onTickFmt me2)))\<rparr>, Some e)
                 | Inr s \<Rightarrow>
                     render env i
                       (emit (w\<lparr>heap := (heap w)(i \<mapsto> fst (doFormat env me2 (onTickFmt me2)))\<rparr>)
                          [OnTick i s, OnUpdate i]))))"

definition setTick :: "Env \<Rightarrow> nat \<Rightarrow> jsnum \<Rightarrow> World \<Rightarrow> World \<times> error option" where
  "setTick env i newTick w =
     (case heap w i of
        None \<Rightarrow> (w, None)
      | Some me \<Rightarrow>
          (let me1 = me\<lparr>curr := newTick\<rparr>
           in if js_gt (curr me1) (total me1)
              then (w\<lparr>heap := (heap w)(i \<mapsto> me1\<lparr>complete := True\<rparr>)\<rparr>, None)
              else render env i (w\<lparr>heap := (heap w)(i \<mapsto> me1)\<rparr>)))"

definition interrupt :: "nat \<Rightarrow> string \<Rightarrow> World \<Rightarrow> World" where
  "interrupt i message w =
     (case heap w i of
        None \<Rightarrow> w
      | Some me \<Rightarrow>
          emit w [StreamClearLine i None, StreamCursorTo i 0, StreamWrite i message,
                  StreamWrite i [CHR 0x0A], StreamWrite i (lastDraw me)])"

definition clearLine :: "nat \<Rightarrow> World \<Rightarrow> World" where
  "clearLine i w = emit w [StreamCursorTo i 0, StreamWrite i [], StreamClearLine i (Some 1)]"

section \<open>The timers\<close>

text \<open>
  The callback of the sample timer, run once a second while the timer is armed.
\<close>

definition sampleCountMax :: nat where
  "sampleCountMax = 20"

definition sampleTimer :: "ProgressBar \<Rightarrow> ProgressBar" where
  "sampleTimer me =
     (let ts = timeSamples me @ [sample me];
          ts = (if length ts > sampleCountMax then tl ts else ts);
          s = foldl js_add (Fin 0) ts
      in me\<lparr>timeSamples := ts,
            sample := Fin 0,
            opsPerSec :=
              js_div (js_floor (js_mul (js_div s (Fin (of_nat (length ts)))) (Fin 10))) (Fin 10)\<rparr>)"

definition fireSample :: "nat \<Rightarrow> World \<Rightarrow> World" where
  "fireSample i w =
     (if i \<in> set (intervals w)
      then (case heap w i of
              None \<Rightarrow> w
            | Some me \<Rightarrow> w\<lparr>heap := (heap w)(i \<mapsto> sampleTimer me)\<rparr>)
      else w)"

text \<open>
  The callback of the debounce timeout with handle \<open>t\<close>, when it is due: the timeout
  leaves the pending ones, the instance is rendered as it is now, and
  \<^verbatim>\<open>writeLimit\<close> becomes \<^verbatim>\<open>null\<close> (unless the rendering threw).
\<close>

definition fireTimeout :: "Env \<Rightarrow> nat \<Rightarrow> World \<Rightarrow> World \<times> error option" where
  "fireTimeout env t w =
     (case map_of (timeouts w) t of
        None \<Rightarrow> (w, None)
      | Some i \<Rightarrow>
          (case doRender env i (w\<lparr>timeouts := filter (\<lambda>p. fst p \<noteq> t) (timeouts w)\<rparr>) of
             (w1, Some e) \<Rightarrow> (w1, Some e)
           | (w1, None) \<Rightarrow>
               (case heap w1 i of
                  None \<Rightarrow> (w1, None)
                | Some b \<Rightarrow> (w1\<lparr>heap := (heap w1)(i \<mapsto> b\<lparr>writeLimit := None\<rparr>)\<rparr>, None))))"

section \<open>Construction\<close>

text \<open>The operator \<^verbatim>\<open>||\<close> on an option of the constructor and its default.\<close>

definition or_str :: "string option \<Rightarrow> string \<Rightarrow> string" where
  "or_str v d = (case v of None \<Rightarrow> d | Some s \<Rightarrow> if s = [] then d else s)"

definition or_num :: "jsnum option \<Rightarrow> jsnum \<Rightarrow> jsnum" where
  "or_num v d = (case v of None \<Rightarrow> d | Some x \<Rightarrow> if truthy x then x else d)"

definition or_bool :: "bool option \<Rightarrow> bool \<Rightarrow> bool" where
  "or_bool v d = (case v of None \<Rightarrow> d | Some b \<Rightarrow> if b then b else d)"

text \<open>
  \<^verbatim>\<open>new ProgressBar(options)\<close>. The glyphs default to the code units U+2588 and U+2591,
  which stand here as the characters \<open>0xDB\<close> and \<open>0xB0\<close> (one code unit each).
  The result is the id of the new instance, or the error thrown.
\<close>

definition ProgressBar_new :: "Env \<Rightarrow> Options option \<Rightarrow> World \<Rightarrow> World \<times> (error + nat)" where
  "ProgressBar_new env options w =
     (let i = Suc (barInc w);
          w1 = w\<lparr>barInc := i, bars := bars w @ [i]\<rparr>
      in case (case options of None \<Rightarrow> JUndefined | Some opts \<Rightarrow> opt_total opts) of
           JNumber t \<Rightarrow>
             (let opts = the options;
                  me = \<lparr>ident = i,
                        fmt = or_str (opt_format opts) ''[:bar] :percent'',
                        curr = Fin 0,
                        total = t,
                        width = or_num (opt_width opts) (Fin 40),
                        chars_complete = or_str (opt_complete opts) [CHR 0xDB],
                        chars_incomplete = or_str (opt_incomplete opts) [CHR 0xB0],
                        chars_head = or_str (opt_head opts) (or_str (opt_complete opts) ''=''),
                        debounceLimit =
                          (case opt_debounce opts of
                             None \<Rightarrow> None
                           | Some d \<Rightarrow> if truthy d then Some d else None),
                        elapsedTime = Fin (1 / 10000),
                        opsPerSec = Fin 0,
                        totalOpsPerSec = Fin 0,
                        startTime = hrtime env,
                        writeLimit = None,
                        report = None,
                        onTickFmt = or_str (opt_onTickFmt opts) '':current / :total (:percent)'',
                        justMe = or_bool (opt_justMe opts) False,
                        noRender = or_bool (opt_noRender opts) False,
                        percent = JNumber (Fin 0),
                        sample = Fin 0,
                        timeSamples = [],
                        lastDraw = [],
                        clear = or_bool (opt_clear opts) False,
                        title = or_str (opt_title opts) ''->'',
                        logResult = or_bool (opt_logResult opts) True,
                        delay = or_num (opt_delay opts) (Fin 1000),
                        complete = False\<rparr>
              in (emit (w1\<lparr>heap := (heap w1)(i \<mapsto> me), intervals := intervals w1 @ [i]\<rparr>)
                    [OnStart i],
                  Inr i))
         | _ \<Rightarrow> (w1, Inl (Error ''total required'')))"

section \<open>Runs\<close>

text \<open>
  A call of the host program or a callback of the event loop, with what the program
  reads from its surroundings during it. A call that throws leaves the changes it made
  before; the run goes on with the next call, as under a host that catches the error.
\<close>

datatype action =
    New "Options option"
  | Tick nat "jsnum option"
  | SetTick nat jsnum
  | Render nat
  | Interrupt nat string
  | Terminate nat
  | FireSample nat
  | FireTimeout nat

fun step :: "Env \<Rightarrow> action \<Rightarrow> World \<Rightarrow> World" where
  "step env (New options) w = fst (ProgressBar_new env options w)"
| "step env (Tick i len) w = fst (tick env i len w)"
| "step env (SetTick i n) w = fst (setTick env i n w)"
| "step env (Render i) w = fst (render env i w)"
| "step env (Interrupt i m) w = interrupt i m w"
| "step env (Terminate i) w = terminate i w"
| "step env (FireSample i) w = fireSample i w"
| "step env (FireTimeout t) w = fst (fireTimeout env t w)"

fun run :: "(Env \<times> action) list \<Rightarrow> World \<Rightarrow> World" where
  "run [] w = w"
| "run ((env, a) # as) w = run as (step env a w)"

definition world0 :: World where
  "world0 = \<lparr>barInc = 0, bars = [], barLines = [], heap = (\<lambda>i. None), intervals = [],
             timeouts = [], nextTimer = 0, events = []\<rparr>"

section \<open>Relations between states\<close>

text \<open>
  Two instances that agree on every field that \<open>doFormat\<close> reads to build its string.
\<close>

definition same_view :: "ProgressBar \<Rightarrow> ProgressBar \<Rightarrow> bool" where
  "same_view a b =
     (curr a = curr b \<and> total a = total b \<and> opsPerSec a = opsPerSec b \<and>
      startTime a = startTime b \<and> width a = width b \<and>
      chars_complete a = chars_complete b \<and> chars_incomplete a = chars_incomplete b \<and>
      chars_head a = chars_head b)"

text \<open>
  \<open>render_frame b b'\<close>: the instance \<open>b'\<close> is \<open>b\<close> but for the five fields that one
  rendering may write.
\<close>

definition render_frame :: "ProgressBar \<Rightarrow> ProgressBar \<Rightarrow> bool" where
  "render_frame b b' =
     (\<exists>p a e d l. b' = b\<lparr>percent := p, totalOpsPerSec := a, elapsedTime := e,
                          debounceLimit := d, lastDraw := l\<rparr>)"

text \<open>\<open>debounce_frame b b'\<close>: \<open>b'\<close> is \<open>b\<close> but for its debounce limit.\<close>

definition debounce_frame :: "ProgressBar \<Rightarrow> ProgressBar \<Rightarrow> bool" where
  "debounce_frame b b' = (\<exists>d. b' = b\<lparr>debounceLimit := d\<rparr>)"

text \<open>
  \<open>heap_frame R h h'\<close>: the two stores hold the same instances, each related by \<open>R\<close>.
\<close>

definition heap_frame ::
  "(ProgressBar \<Rightarrow> ProgressBar \<Rightarrow> bool) \<Rightarrow> (nat \<Rightarrow> ProgressBar option) \<Rightarrow>
   (nat \<Rightarrow> ProgressBar option) \<Rightarrow> bool" where
  "heap_frame R h h' =
     (\<forall>j. (h j = None \<longrightarrow> h' j = None) \<and>
          (\<forall>b. h j = Some b \<longrightarrow> (\<exists>b'. h' j = Some b' \<and> R b b')))"

section \<open>Invariants of a run\<close>

text \<open>
  \<open>keeps b b'\<close>: what every call leaves to an instance, whatever else it changes: the
  sample window and the handle of the pending timeout are the same, and an instance
  that was complete still is.
\<close>

definition keeps :: "ProgressBar \<Rightarrow> ProgressBar \<Rightarrow> bool" where
  "keeps b b' =
     (timeSamples b' = timeSamples b \<and> writeLimit b' = writeLimit b \<and>
      (complete b \<longrightarrow> complete b'))"

text \<open>\<open>quiet w w'\<close>: no instance was created and no timeout was set or fired.\<close>

definition quiet :: "World \<Rightarrow> World \<Rightarrow> bool" where
  "quiet w w' =
     (heap_frame keeps (heap w) (heap w') \<and> timeouts w' = timeouts w \<and>
      nextTimer w' = nextTimer w \<and> barInc w' = barInc w)"

text \<open>\<open>schedule i w w'\<close>: instance \<open>i\<close>, which had no pending timeout, set one.\<close>

definition schedule :: "nat \<Rightarrow> World \<Rightarrow> World \<Rightarrow> bool" where
  "schedule i w w' =
     (\<exists>me. heap w i = Some me \<and> writeLimit me = None \<and>
           heap w' = (heap w)(i \<mapsto> me\<lparr>writeLimit := Some (nextTimer w)\<rparr>) \<and>
           timeouts w' = timeouts w @ [(nextTimer w, i)] \<and>
           nextTimer w' = Suc (nextTimer w) \<and> barInc w' = barInc w)"

text \<open>
  The invariant of the worlds that a program reaches: every instance has an id that the
  counter has passed; every sample window holds at most \<open>sampleCountMax\<close> samples; the
  handles of the pending timeouts are distinct and below the next handle, and each
  pending timeout is the one its instance holds in \<^verbatim>\<open>writeLimit\<close>.
\<close>

definition inv :: "World \<Rightarrow> bool" where
  "inv w =
     ((\<forall>j b. heap w j = Some b \<longrightarrow> j \<le> barInc w \<and> length (timeSamples b) \<le> sampleCountMax) \<and>
      distinct (map fst (timeouts w)) \<and>
      (\<forall>t j. (t, j) \<in> set (timeouts w) \<longrightarrow>
         t < nextTimer w \<and> (\<exists>b. heap w j = Some b \<and> writeLimit b = Some t)))"

text \<open>The pending debounce timeouts of an instance, and the calls of its completion hook.\<close>

definition pending :: "nat \<Rightarrow> World \<Rightarrow> (nat \<times> nat) list" where
  "pending i w = filter (\<lambda>p. snd p = i) (timeouts w)"

definition completions :: "nat \<Rightarrow> World \<Rightarrow> nat" where
  "completions i w = length (filter (\<lambda>e. e = OnComplete i) (events w))"

section \<open>Tokens and their occurrences\<close>







section \<open>Concrete inputs\<close>

text \<open>
  A terminal of 80 columns on a platform other than Windows, read at clock \<open>t\<close>
  (nanoseconds), and the options that give only \<^verbatim>\<open>total\<close> and \<^verbatim>\<open>format\<close>.
\<close>

definition env_at :: "int \<Rightarrow> Env" where
  "env_at t = \<lparr>columns = Fin 80, win32 = False, hrtime = t\<rparr>"

definition options_of :: "jsval \<Rightarrow> string option \<Rightarrow> Options" where
  "options_of t f =
     \<lparr>opt_total = t, opt_format = f, opt_width = None, opt_complete = None,
      opt_incomplete = None, opt_head = None, opt_debounce = None, opt_onTickFmt = None,
      opt_justMe = None, opt_noRender = None, opt_clear = None, opt_title = None,
      opt_logResult = None, opt_delay = None\<rparr>"

text \<open>The first instance of a program, constructed at clock 0 with these options.\<close>

definition fresh :: "jsval \<Rightarrow> string option \<Rightarrow> ProgressBar option" where
  "fresh t f = heap (fst (ProgressBar_new (env_at 0) (Some (options_of t f)) world0)) 1"

text \<open>
  The instance \<^verbatim>\<open>new ProgressBar({total: 2})\<close>, the first of a program, constructed at
  clock 0.
\<close>

definition bar_of_two :: ProgressBar where
  "bar_of_two =
     \<lparr>ident = 1, fmt = ''[:bar] :percent'', curr = Fin 0, total = Fin 2, width = Fin 40,
      chars_complete = [CHR 0xDB], chars_incomplete = [CHR 0xB0], chars_head = ''='',
      debounceLimit = None, elapsedTime = Fin (1 / 10000), opsPerSec = Fin 0,
      totalOpsPerSec = Fin 0, startTime = 0, writeLimit = None, report = None,
      onTickFmt = '':current / :total (:percent)'', justMe = False, noRender = False,
      percent = JNumber (Fin 0), sample = Fin 0, timeSamples = [], lastDraw = [],
      clear = False, title = ''->'', logResult = True, delay = Fin 1000, complete = False\<rparr>"

text \<open>
  That instance once its first frame is drawn, and the world of a program that has
  constructed it and rendered it once.
\<close>

definition bar_drawn :: ProgressBar where
  "bar_drawn =
     bar_of_two\<lparr>percent := JString ''0'', totalOpsPerSec := NaN, elapsedTime := Fin 0,
       lastDraw := ''-> ['' @ replicate 40 (CHR 0xB0) @ ''] 0%''\<rparr>"

definition world_drawn :: World where
  "world_drawn =
     run [(env_at 0, New (Some (options_of (JNumber (Fin 2)) None))), (env_at 0, Render 1)]
       world0"



text \<open>
  A bar of total 10 with a debounce interval of 100 ms that is ticked three times within
  three milliseconds of its construction; the instance after the first tick and after
  the third.
\<close>

definition debounced :: Options where
  "debounced =
     (options_of (JNumber (Fin 10)) (Some '':current''))\<lparr>opt_debounce := Some (Fin 100)\<rparr>"

definition burst :: "(Env \<times> action) list" where
  "burst = [(env_at 0, New (Some debounced)), (env_at 1000000, Tick 1 None),
            (env_at 2000000, Tick 1 None), (env_at 3000000, Tick 1 None)]"

definition bar_burst1 :: ProgressBar where
  "bar_burst1 =
     \<lparr>ident = 1, fmt = '':current'', curr = Fin 1, total = Fin 10, width = Fin 40,
      chars_complete = [CHR 0xDB], chars_incomplete = [CHR 0xB0], chars_head = ''='',
      debounceLimit = Some (Fin 100), elapsedTime = Fin (1 / 1000), opsPerSec = Fin 0,
      totalOpsPerSec = Fin 1000, startTime = 0, writeLimit = Some 0, report = None,
      onTickFmt = '':current / :total (:percent)'', justMe = False, noRender = False,
      percent = JString ''10'', sample = Fin 1, timeSamples = [], lastDraw = [],
      clear = False, title = ''->'', logResult = True, delay = Fin 1000, complete = False\<rparr>"

definition bar_burst3 :: ProgressBar where
  "bar_burst3 =
     bar_burst1\<lparr>curr := Fin 3, elapsedTime := Fin (3 / 1000), percent := JString ''30'',
       sample := Fin 3\<rparr>"

text \<open>
  A bar of total 3 that is ticked by 2 twice.
\<close>

definition overshoot :: "(Env \<times> action) list" where
  "overshoot = [(env_at 0, New (Some (options_of (JNumber (Fin 3)) None))),
                (env_at 1000000, Tick 1 (Some (Fin 2))),
                (env_at 2000000, Tick 1 (Some (Fin 2)))]"


section \<open>Properties of formatting\<close>

lemma elapsed_fst:
  "fst (elapsed env me) =
     me\<lparr>totalOpsPerSec :=
          js_div (js_floor (js_mul (js_div (curr me) (timeDiff env (startTime me))) (Fin 10))) (Fin 10),
        elapsedTime := timeDiff env (startTime me)\<rparr>"
  by (simp add: elapsed_def Let_def)

lemma elapsed_snd:
  "snd (elapsed env me) =
     secondsToMin (js_div (js_floor (js_mul (timeDiff env (startTime me)) (Fin 1000))) (Fin 1000))"
  by (simp add: elapsed_def Let_def)

lemma format_tokens_cong:
  assumes "curr a = curr b" "total a = total b" "opsPerSec a = opsPerSec b" "startTime a = startTime b"
  shows "format_tokens env a f = format_tokens env b f"
  using assms
  by (simp add: format_tokens_def substitutions_def bar_percent_def elapsed_snd timeRemaining_def)

lemma bar_width_cong: "width a = width b \<Longrightarrow> bar_width env a s = bar_width env b s"
  by (simp add: bar_width_def)

lemma build_bar_cong:
  assumes "chars_complete a = chars_complete b" "chars_incomplete a = chars_incomplete b"
    "chars_head a = chars_head b"
  shows "build_bar a wd cl = build_bar b wd cl"
  using assms by (simp add: build_bar_def split: sum.splits)

lemma doFormat_fst:
  "fst (doFormat env me f) =
     me\<lparr>percent := JString (toFixed0 (bar_percent me)),
        totalOpsPerSec :=
          js_div (js_floor (js_mul (js_div (curr me) (timeDiff env (startTime me))) (Fin 10))) (Fin 10),
        elapsedTime := timeDiff env (startTime me)\<rparr>"
  by (simp add: doFormat_def Let_def elapsed_fst split: sum.splits)

lemma doFormat_snd:
  "snd (doFormat env me f) =
     (case build_bar me (bar_width env me (format_tokens env me f))
             (complete_length (bar_width env me (format_tokens env me f)) (bar_ratio me)) of
        Inl e \<Rightarrow> Inl e
      | Inr bar \<Rightarrow> Inr (js_replace (format_tokens env me f) '':bar'' bar))"
proof -
  let ?me1 = "me\<lparr>percent := JString (toFixed0 (bar_percent me))\<rparr>"
  let ?me2 = "fst (elapsed env ?me1)"
  have t: "format_tokens env ?me1 f = format_tokens env me f"
    by (rule format_tokens_cong) simp_all
  have w: "bar_width env ?me2 s = bar_width env me s" for s
    by (rule bar_width_cong) (simp add: elapsed_fst)
  have b: "build_bar ?me2 wd cl = build_bar me wd cl" for wd cl
    by (rule build_bar_cong) (simp_all add: elapsed_fst)
  show ?thesis
    unfolding doFormat_def Let_def t w b by (simp split: sum.splits)
qed

lemma doFormat_snd_cong:
  assumes "same_view a b"
  shows "snd (doFormat env a f) = snd (doFormat env b f)"
proof -
  have t: "format_tokens env a f = format_tokens env b f"
    using assms by (intro format_tokens_cong) (simp_all add: same_view_def)
  have w: "bar_width env a s = bar_width env b s" for s
    using assms by (intro bar_width_cong) (simp add: same_view_def)
  have b: "build_bar a wd cl = build_bar b wd cl" for wd cl
    using assms by (intro build_bar_cong) (simp_all add: same_view_def)
  have r: "bar_ratio a = bar_ratio b"
    using assms by (simp add: bar_ratio_def same_view_def)
  show ?thesis unfolding doFormat_snd t w b r ..
qed

section \<open>What a rendering may change\<close>

lemma render_frame_refl: "render_frame b b"
proof -
  have "b = b\<lparr>percent := percent b, totalOpsPerSec := totalOpsPerSec b,
               elapsedTime := elapsedTime b, debounceLimit := debounceLimit b,
               lastDraw := lastDraw b\<rparr>" by simp
  then show ?thesis unfolding render_frame_def by blast
qed

lemma render_frame_trans:
  assumes "render_frame a b" "render_frame b c"
  shows "render_frame a c"
proof -
  from assms(1) obtain p1 a1 e1 d1 l1 where
    b: "b = a\<lparr>percent := p1, totalOpsPerSec := a1, elapsedTime := e1,
                debounceLimit := d1, lastDraw := l1\<rparr>"
    unfolding render_frame_def by blast
  from assms(2) obtain p2 a2 e2 d2 l2 where
    c: "c = b\<lparr>percent := p2, totalOpsPerSec := a2, elapsedTime := e2,
                debounceLimit := d2, lastDraw := l2\<rparr>"
    unfolding render_frame_def by blast
  have "c = a\<lparr>percent := p2, totalOpsPerSec := a2, elapsedTime := e2,
               debounceLimit := d2, lastDraw := l2\<rparr>"
    unfolding c b by simp
  then show ?thesis unfolding render_frame_def by blast
qed

lemma render_frameI:
  "b' = b\<lparr>percent := p, totalOpsPerSec := a, elapsedTime := e, debounceLimit := d, lastDraw := l\<rparr>
   \<Longrightarrow> render_frame b b'"
  unfolding render_frame_def by blast

lemma heap_frame_refl: "(\<And>b. R b b) \<Longrightarrow> heap_frame R h h"
  by (simp add: heap_frame_def)

lemma heap_frameD:
  "heap_frame R h h' \<Longrightarrow> h j = Some b \<Longrightarrow> \<exists>b'. h' j = Some b' \<and> R b b'"
  unfolding heap_frame_def by blast

lemma heap_frame_None: "heap_frame R h h' \<Longrightarrow> h j = None \<Longrightarrow> h' j = None"
  unfolding heap_frame_def by blast

lemma heap_frame_trans:
  assumes "\<And>a b c. R a b \<Longrightarrow> R b c \<Longrightarrow> R a c" "heap_frame R h1 h2" "heap_frame R h2 h3"
  shows "heap_frame R h1 h3"
  unfolding heap_frame_def
proof (intro allI conjI impI)
  fix j assume "h1 j = None"
  then show "h3 j = None"
    using assms(2,3) by (blast dest: heap_frame_None)
next
  fix j a assume "h1 j = Some a"
  with assms(2) obtain b where b: "h2 j = Some b" "R a b" by (blast dest: heap_frameD)
  with assms(3) obtain c where c: "h3 j = Some c" "R b c" by (blast dest: heap_frameD)
  from assms(1) [OF b(2) c(2)] c(1) show "\<exists>b'. h3 j = Some b' \<and> R a b'" by blast
qed

lemma heap_frame_upd:
  assumes "h i = Some b" "R b b'" "\<And>x. R x x"
  shows "heap_frame R h (h(i \<mapsto> b'))"
  using assms by (simp add: heap_frame_def)

lemma debounce_frame_refl: "debounce_frame b b"
proof -
  have "b = b\<lparr>debounceLimit := debounceLimit b\<rparr>" by simp
  then show ?thesis unfolding debounce_frame_def by blast
qed

lemma debounce_frame_trans:
  assumes "debounce_frame a b" "debounce_frame b c"
  shows "debounce_frame a c"
proof -
  from assms(1) obtain d1 where b: "b = a\<lparr>debounceLimit := d1\<rparr>"
    unfolding debounce_frame_def by blast
  from assms(2) obtain d2 where c: "c = b\<lparr>debounceLimit := d2\<rparr>"
    unfolding debounce_frame_def by blast
  have "c = a\<lparr>debounceLimit := d2\<rparr>" unfolding c b by simp
  then show ?thesis unfolding debounce_frame_def by blast
qed

lemma debounce_frame_render: "debounce_frame b b' \<Longrightarrow> render_frame b b'"
proof -
  assume "debounce_frame b b'"
  then obtain d where "b' = b\<lparr>debounceLimit := d\<rparr>" unfolding debounce_frame_def by blast
  then have "b' = b\<lparr>percent := percent b, totalOpsPerSec := totalOpsPerSec b,
                     elapsedTime := elapsedTime b, debounceLimit := d, lastDraw := lastDraw b\<rparr>"
    by simp
  then show ?thesis by (rule render_frameI)
qed

lemma heap_frame_mono:
  assumes "\<And>a b. R a b \<Longrightarrow> S a b" "heap_frame R h h'"
  shows "heap_frame S h h'"
  using assms unfolding heap_frame_def by blast

lemma stack_lines_frame:
  "heap_frame debounce_frame h (fst (stack_lines d xs (h, s)))"
proof (induction xs arbitrary: h s)
  case Nil
  show ?case by (simp add: heap_frame_refl debounce_frame_refl)
next
  case (Cons x xs)
  obtain item str where x: "x = (item, str)" by (cases x)
  show ?case
  proof (cases "h item")
    case None
    with x Cons.IH [of h s] show ?thesis by simp
  next
    case (Some b)
    let ?b' = "if justMe b then b\<lparr>debounceLimit := Some d\<rparr> else b"
    have "debounce_frame b (b\<lparr>debounceLimit := Some d\<rparr>)"
      unfolding debounce_frame_def by blast
    then have "debounce_frame b ?b'"
      by (simp add: debounce_frame_refl)
    then have 1: "heap_frame debounce_frame h (h(item \<mapsto> ?b'))"
      using Some by (intro heap_frame_upd) (simp_all add: debounce_frame_refl)
    have 2: "heap_frame debounce_frame (h(item \<mapsto> ?b'))
               (fst (stack_lines d xs (h(item \<mapsto> ?b'), s @ title ?b' @ str @ newLine @ '' '')))"
      by (rule Cons.IH)
    have "heap_frame debounce_frame h
            (fst (stack_lines d xs (h(item \<mapsto> ?b'), s @ title ?b' @ str @ newLine @ '' '')))"
      by (rule heap_frame_trans [OF debounce_frame_trans 1 2])
    with x Some show ?thesis by (simp add: Let_def)
  qed
qed

lemma doFormat_render_frame: "render_frame me (fst (doFormat env me f))"
proof -
  have "fst (doFormat env me f) =
        me\<lparr>percent := JString (toFixed0 (bar_percent me)),
           totalOpsPerSec :=
             js_div (js_floor (js_mul (js_div (curr me) (timeDiff env (startTime me))) (Fin 10))) (Fin 10),
           elapsedTime := timeDiff env (startTime me),
           debounceLimit := debounceLimit me, lastDraw := lastDraw me\<rparr>"
    unfolding doFormat_fst by simp
  then show ?thesis by (rule render_frameI)
qed

lemma stack_bars_heap: "heap_frame debounce_frame (heap w) (heap (fst (stack_bars i str w)))"
  by (simp add: stack_bars_def Let_def stack_lines_frame heap_frame_refl debounce_frame_refl
        split: option.splits)

lemma stack_bars_rest:
  "events (fst (stack_bars i str w)) = events w \<and>
   timeouts (fst (stack_bars i str w)) = timeouts w \<and>
   intervals (fst (stack_bars i str w)) = intervals w \<and>
   nextTimer (fst (stack_bars i str w)) = nextTimer w \<and>
   barInc (fst (stack_bars i str w)) = barInc w \<and>
   bars (fst (stack_bars i str w)) = bars w"
  by (simp add: stack_bars_def Let_def split: option.splits)

lemma draw_heap: "heap_frame render_frame (heap w) (heap (draw i str b w))"
proof (cases "heap w i")
  case None
  then show ?thesis by (simp add: draw_def heap_frame_refl render_frame_refl)
next
  case (Some me)
  have "me\<lparr>lastDraw := str\<rparr> =
        me\<lparr>percent := percent me, totalOpsPerSec := totalOpsPerSec me,
           elapsedTime := elapsedTime me, debounceLimit := debounceLimit me, lastDraw := str\<rparr>"
    by simp
  then have "render_frame me (me\<lparr>lastDraw := str\<rparr>)" by (rule render_frameI)
  then have "heap_frame render_frame (heap w) ((heap w)(i \<mapsto> me\<lparr>lastDraw := str\<rparr>))"
    using Some by (intro heap_frame_upd) (simp_all add: render_frame_refl)
  with Some show ?thesis
    by (simp add: draw_def emit_def heap_frame_refl render_frame_refl)
qed

lemma draw_rest:
  "timeouts (draw i str b w) = timeouts w \<and>
   intervals (draw i str b w) = intervals w \<and>
   nextTimer (draw i str b w) = nextTimer w \<and>
   barInc (draw i str b w) = barInc w \<and>
   bars (draw i str b w) = bars w"
  by (simp add: draw_def emit_def split: option.splits)

lemma draw_suppressed:
  "heap w i = Some me \<Longrightarrow> lastDraw me = str \<or> complete me \<Longrightarrow> draw i str b w = w"
  by (auto simp add: draw_def)

lemma draw_after:
  "heap w i = Some me \<Longrightarrow>
   \<exists>me'. heap (draw i str b w) i = Some me' \<and> (lastDraw me' = str \<or> complete me') \<and>
         me' = me\<lparr>lastDraw := lastDraw me'\<rparr>"
  by (simp add: draw_def emit_def)

lemma doRender_heap: "heap_frame render_frame (heap w) (heap (fst (doRender env i w)))"
proof (cases "heap w i")
  case None
  then show ?thesis by (simp add: doRender_def heap_frame_refl render_frame_refl)
next
  case (Some me)
  let ?f = "title me @ '' '' @ fmt me"
  let ?w1 = "w\<lparr>heap := (heap w)(i \<mapsto> fst (doFormat env me ?f))\<rparr>"
  have f1: "heap_frame render_frame (heap w) (heap ?w1)"
    using Some doFormat_render_frame [of me env ?f]
    by (simp add: heap_frame_upd render_frame_refl)
  show ?thesis
  proof (cases "noRender me")
    case True
    with Some show ?thesis by (simp add: doRender_def heap_frame_refl render_frame_refl)
  next
    case False
    show ?thesis
    proof (cases "snd (doFormat env me ?f)")
      case (Inl e)
      with Some False f1 show ?thesis by (simp add: doRender_def)
    next
      case (Inr str)
      have f2: "heap_frame render_frame (heap ?w1) (heap (fst (stack_bars i str ?w1)))"
        by (rule heap_frame_mono [OF debounce_frame_render stack_bars_heap])
      have f3: "heap_frame render_frame (heap (fst (stack_bars i str ?w1)))
                  (heap (draw i str (snd (stack_bars i str ?w1)) (fst (stack_bars i str ?w1))))"
        by (rule draw_heap)
      have "heap_frame render_frame (heap w)
              (heap (draw i str (snd (stack_bars i str ?w1)) (fst (stack_bars i str ?w1))))"
        by (rule heap_frame_trans [OF render_frame_trans f1
              heap_frame_trans [OF render_frame_trans f2 f3]])
      with Some False Inr show ?thesis by (simp add: doRender_def Let_def)
    qed
  qed
qed

lemma doRender_rest:
  "timeouts (fst (doRender env i w)) = timeouts w \<and>
   intervals (fst (doRender env i w)) = intervals w \<and>
   nextTimer (fst (doRender env i w)) = nextTimer w \<and>
   barInc (fst (doRender env i w)) = barInc w \<and>
   bars (fst (doRender env i w)) = bars w"
  by (simp add: doRender_def Let_def draw_rest stack_bars_rest split: option.splits sum.splits)

lemma render_frameD:
  assumes "render_frame a b"
  shows "same_view b a" "title b = title a" "fmt b = fmt a" "noRender b = noRender a"
    "complete b = complete a" "writeLimit b = writeLimit a" "timeSamples b = timeSamples a"
    "sample b = sample a" "curr b = curr a" "total b = total a" "report b = report a"
    "opsPerSec b = opsPerSec a" "logResult b = logResult a" "clear b = clear a"
    "justMe b = justMe a" "delay b = delay a" "onTickFmt b = onTickFmt a"
proof -
  from assms obtain p t e d l where
    "b = a\<lparr>percent := p, totalOpsPerSec := t, elapsedTime := e, debounceLimit := d, lastDraw := l\<rparr>"
    unfolding render_frame_def by blast
  then show "same_view b a" "title b = title a" "fmt b = fmt a" "noRender b = noRender a"
    "complete b = complete a" "writeLimit b = writeLimit a" "timeSamples b = timeSamples a"
    "sample b = sample a" "curr b = curr a" "total b = total a" "report b = report a"
    "opsPerSec b = opsPerSec a" "logResult b = logResult a" "clear b = clear a"
    "justMe b = justMe a" "delay b = delay a" "onTickFmt b = onTickFmt a"
    by (simp_all add: same_view_def)
qed

lemma debounce_frame_lastDraw: "debounce_frame a b \<Longrightarrow> lastDraw b = lastDraw a"
  unfolding debounce_frame_def by auto

lemma doFormat_fst_fields:
  "lastDraw (fst (doFormat env me f)) = lastDraw me"
  "complete (fst (doFormat env me f)) = complete me"
  by (simp_all add: doFormat_fst)

lemma doRender_no_write:
  assumes me: "heap w i = Some me"
    and str: "snd (doFormat env me (title me @ '' '' @ fmt me)) = Inr str"
    and same: "lastDraw me = str \<or> complete me"
  shows "events (fst (doRender env i w)) = events w"
proof (cases "noRender me")
  case True
  with me show ?thesis by (simp add: doRender_def)
next
  case False
  let ?f = "title me @ '' '' @ fmt me"
  let ?me1 = "fst (doFormat env me ?f)"
  let ?w1 = "w\<lparr>heap := (heap w)(i \<mapsto> ?me1)\<rparr>"
  let ?sb = "stack_bars i str ?w1"
  have "heap ?w1 i = Some ?me1" by simp
  with stack_bars_heap [of ?w1 i str] obtain me2 where
    me2: "heap (fst ?sb) i = Some me2" "debounce_frame ?me1 me2"
    by (blast dest: heap_frameD)
  have "lastDraw me2 = lastDraw me"
    using debounce_frame_lastDraw [OF me2(2)] by (simp add: doFormat_fst_fields)
  moreover have "complete me2 = complete me"
    using render_frameD(5) [OF debounce_frame_render [OF me2(2)]]
    by (simp add: doFormat_fst_fields)
  ultimately have "lastDraw me2 = str \<or> complete me2" using same by simp
  then have "draw i str (snd ?sb) (fst ?sb) = fst ?sb"
    using me2(1) by (intro draw_suppressed)
  moreover have "events (fst ?sb) = events w"
    using stack_bars_rest [of i str ?w1] by simp
  ultimately show ?thesis
    using me str False by (simp add: doRender_def Let_def)
qed

lemma doRender_twice:
  "events (fst (doRender env i (fst (doRender env i w)))) = events (fst (doRender env i w))"
proof (cases "heap w i")
  case None
  then show ?thesis by (simp add: doRender_def)
next
  case (Some me)
  let ?f = "title me @ '' '' @ fmt me"
  let ?w' = "fst (doRender env i w)"
  from doRender_heap [of w env i] Some obtain me' where
    me': "heap ?w' i = Some me'" "render_frame me me'"
    by (blast dest: heap_frameD)
  note d = render_frameD [OF me'(2)]
  have f: "title me' @ '' '' @ fmt me' = ?f" using d by simp
  have s: "snd (doFormat env me' ?f) = snd (doFormat env me ?f)"
    using d(1) by (rule doFormat_snd_cong)
  show ?thesis
  proof (cases "noRender me")
    case True
    with Some show ?thesis by (simp add: doRender_def)
  next
    case False
    show ?thesis
    proof (cases "snd (doFormat env me ?f)")
      case (Inl e)
      with me'(1) d(4) False f s show ?thesis by (simp add: doRender_def)
    next
      case (Inr str)
      let ?w1 = "w\<lparr>heap := (heap w)(i \<mapsto> fst (doFormat env me ?f))\<rparr>"
      let ?sb = "stack_bars i str ?w1"
      have w': "?w' = draw i str (snd ?sb) (fst ?sb)"
        using Some False Inr by (simp add: doRender_def Let_def)
      have "heap ?w1 i = Some (fst (doFormat env me ?f))" by simp
      with stack_bars_heap [of ?w1 i str] obtain me2 where
        me2: "heap (fst ?sb) i = Some me2"
        by (blast dest: heap_frameD)
      from draw_after [OF me2, of str "snd ?sb"] me'(1) w'
      have "lastDraw me' = str \<or> complete me'" by auto
      moreover have "snd (doFormat env me' (title me' @ '' '' @ fmt me')) = Inr str"
        using f s Inr by simp
      ultimately show ?thesis
        using me'(1) by (intro doRender_no_write)
    qed
  qed
qed

section \<open>What a call may change\<close>

lemma keeps_refl: "keeps b b"
  by (simp add: keeps_def)

lemma keeps_trans: "keeps a b \<Longrightarrow> keeps b c \<Longrightarrow> keeps a c"
  by (simp add: keeps_def)

lemma render_frame_keeps: "render_frame a b \<Longrightarrow> keeps a b"
  using render_frameD(5,6,7) [of a b] by (simp add: keeps_def)

lemma quiet_refl: "quiet w w"
  by (simp add: quiet_def heap_frame_refl keeps_refl)

lemma quiet_trans: "quiet a b \<Longrightarrow> quiet b c \<Longrightarrow> quiet a c"
  unfolding quiet_def
  using heap_frame_trans [where R = keeps and ?h1.0 = "heap a" and ?h2.0 = "heap b" and ?h3.0 = "heap c"]
    keeps_trans by metis

lemma quiet_upd:
  assumes "heap w i = Some b" "keeps b b'"
  shows "quiet w (w\<lparr>heap := (heap w)(i \<mapsto> b')\<rparr>)"
  using assms by (simp add: quiet_def heap_frame_upd keeps_refl)

lemma quiet_same_heap:
  assumes "heap w' = heap w" "timeouts w' = timeouts w" "nextTimer w' = nextTimer w"
    "barInc w' = barInc w"
  shows "quiet w w'"
  using assms by (simp add: quiet_def heap_frame_refl keeps_refl)

lemma doRender_quiet: "quiet w (fst (doRender env i w))"
  unfolding quiet_def
  using heap_frame_mono [OF render_frame_keeps doRender_heap [of w env i]]
    doRender_rest [of env i w] by simp

lemma emit_quiet: "quiet w (emit w es)"
  by (rule quiet_same_heap) (simp_all add: emit_def)

lemma terminate_quiet: "quiet w (terminate i w)"
  by (rule quiet_same_heap) (simp_all add: terminate_def emit_def split: option.splits)

lemma logReport_quiet: "quiet w (logReport i w)"
  by (rule quiet_same_heap) (simp_all add: logReport_def emit_def split: option.splits)

lemma interrupt_quiet: "quiet w (interrupt i m w)"
  by (rule quiet_same_heap) (simp_all add: interrupt_def emit_def split: option.splits)

lemma buildReport_quiet: "quiet w (buildReport i w)"
proof (cases "heap w i")
  case None
  then show ?thesis by (simp add: buildReport_def quiet_refl)
next
  case (Some me)
  then show ?thesis
    unfolding buildReport_def by (simp add: quiet_upd keeps_def)
qed

lemma set_complete_quiet: "quiet w (set_complete i w)"
proof (cases "heap w i")
  case None
  then show ?thesis by (simp add: set_complete_def quiet_refl)
next
  case (Some me)
  then show ?thesis
    unfolding set_complete_def by (simp add: quiet_upd keeps_def)
qed

lemma finish_quiet: "quiet w (fst (finish env i w))"
proof -
  let ?w0 = "w\<lparr>intervals := removeAll i (intervals w)\<rparr>"
  have 0: "quiet w ?w0" by (rule quiet_same_heap) simp_all
  have 1: "quiet w (fst (doRender env i ?w0))"
    by (rule quiet_trans [OF 0 doRender_quiet])
  obtain w1 r where d: "doRender env i ?w0 = (w1, r)" by (cases "doRender env i ?w0")
  with 1 have w1: "quiet w w1" by simp
  show ?thesis
  proof (cases r)
    case (Some e)
    with d w1 show ?thesis by (simp add: finish_def)
  next
    case None
    let ?w2 = "set_complete i (emit (terminate i (buildReport i w1)) [OnComplete i])"
    have a: "quiet w1 (buildReport i w1)" by (rule buildReport_quiet)
    have b: "quiet (buildReport i w1) (terminate i (buildReport i w1))"
      by (rule terminate_quiet)
    have c: "quiet (terminate i (buildReport i w1))
               (emit (terminate i (buildReport i w1)) [OnComplete i])"
      by (rule emit_quiet)
    have e: "quiet (emit (terminate i (buildReport i w1)) [OnComplete i]) ?w2"
      by (rule set_complete_quiet)
    have "quiet w1 ?w2"
      by (rule quiet_trans [OF a quiet_trans [OF b quiet_trans [OF c e]]])
    with w1 have 2: "quiet w ?w2" by (rule quiet_trans)
    have 3: "quiet w (logReport i ?w2)"
      by (rule quiet_trans [OF 2 logReport_quiet])
    from d None 2 3 show ?thesis by (simp add: finish_def Let_def)
  qed
qed

lemma render_quiet_or_schedule:
  "quiet w (fst (render env i w)) \<or> schedule i w (fst (render env i w))"
proof (cases "heap w i")
  case None
  then show ?thesis by (simp add: render_def quiet_refl)
next
  case (Some me)
  show ?thesis
  proof (cases "js_seq (curr me) (total me)")
    case True
    with Some show ?thesis by (simp add: render_def finish_quiet)
  next
    case False
    show ?thesis
    proof (cases "case debounceLimit me of None \<Rightarrow> False | Some d \<Rightarrow> truthy d")
      case no: False
      with Some False show ?thesis by (simp add: render_def doRender_quiet)
    next
      case yes: True
      show ?thesis
      proof (cases "writeLimit me")
        case None
        with Some False yes have "schedule i w (fst (render env i w))"
          by (simp add: render_def schedule_def)
        then show ?thesis ..
      next
        case (Some t)
        with \<open>heap w i = Some me\<close> False yes show ?thesis by (simp add: render_def quiet_refl)
      qed
    qed
  qed
qed

section \<open>The invariant is kept\<close>

lemma heap_frame_back:
  assumes "heap_frame R h h'" "h' j = Some b'"
  shows "\<exists>b. h j = Some b \<and> R b b'"
proof (cases "h j")
  case None
  with assms show ?thesis by (auto dest: heap_frame_None)
next
  case (Some b)
  with assms(1) obtain b'' where "h' j = Some b''" "R b b''" by (blast dest: heap_frameD)
  with assms(2) Some show ?thesis by simp
qed

lemma tick_quiet_or_schedule:
  "quiet w (fst (tick env i len w)) \<or>
   (\<exists>w1. quiet w w1 \<and> schedule i w1 (fst (tick env i len w)))"
proof (cases "heap w i")
  case None
  then show ?thesis by (simp add: tick_def quiet_refl)
next
  case (Some me)
  define me2 where
    "me2 = me\<lparr>sample := js_add (sample me) (tick_len len),
               curr := js_add (curr me) (tick_len len)\<rparr>"
  have k2: "keeps me me2" by (simp add: me2_def keeps_def)
  show ?thesis
  proof (cases "js_gt (curr me2) (total me2)")
    case True
    have "keeps me (me2\<lparr>complete := True\<rparr>)" by (simp add: me2_def keeps_def)
    then have "quiet w (w\<lparr>heap := (heap w)(i \<mapsto> me2\<lparr>complete := True\<rparr>)\<rparr>)"
      using Some by (intro quiet_upd)
    with Some True show ?thesis by (simp add: tick_def Let_def me2_def)
  next
    case False
    let ?me3 = "fst (doFormat env me2 (onTickFmt me2))"
    let ?w1 = "w\<lparr>heap := (heap w)(i \<mapsto> ?me3)\<rparr>"
    have "keeps me2 ?me3" by (rule render_frame_keeps [OF doFormat_render_frame])
    with k2 have "keeps me ?me3" by (rule keeps_trans)
    then have q1: "quiet w ?w1" using Some by (intro quiet_upd)
    show ?thesis
    proof (cases "snd (doFormat env me2 (onTickFmt me2))")
      case (Inl e)
      with Some False q1 show ?thesis by (simp add: tick_def Let_def me2_def)
    next
      case (Inr s)
      let ?w2 = "emit ?w1 [OnTick i s, OnUpdate i]"
      have q2: "quiet w ?w2" by (rule quiet_trans [OF q1 emit_quiet])
      have t: "fst (tick env i len w) = fst (render env i ?w2)"
        using Some False Inr by (simp add: tick_def Let_def me2_def)
      from render_quiet_or_schedule [of ?w2 env i] show ?thesis
      proof
        assume "quiet ?w2 (fst (render env i ?w2))"
        with q2 have "quiet w (fst (render env i ?w2))" by (rule quiet_trans)
        with t show ?thesis by simp
      next
        assume "schedule i ?w2 (fst (render env i ?w2))"
        with q2 t show ?thesis by auto
      qed
    qed
  qed
qed

lemma setTick_quiet_or_schedule:
  "quiet w (fst (setTick env i n w)) \<or>
   (\<exists>w1. quiet w w1 \<and> schedule i w1 (fst (setTick env i n w)))"
proof (cases "heap w i")
  case None
  then show ?thesis by (simp add: setTick_def quiet_refl)
next
  case (Some me)
  show ?thesis
  proof (cases "js_gt n (total me)")
    case True
    have "keeps me (me\<lparr>curr := n, complete := True\<rparr>)" by (simp add: keeps_def)
    then have "quiet w (w\<lparr>heap := (heap w)(i \<mapsto> me\<lparr>curr := n, complete := True\<rparr>)\<rparr>)"
      using Some by (intro quiet_upd)
    with Some True show ?thesis by (simp add: setTick_def Let_def)
  next
    case False
    let ?w1 = "w\<lparr>heap := (heap w)(i \<mapsto> me\<lparr>curr := n\<rparr>)\<rparr>"
    have "keeps me (me\<lparr>curr := n\<rparr>)" by (simp add: keeps_def)
    then have q1: "quiet w ?w1" using Some by (intro quiet_upd)
    have t: "fst (setTick env i n w) = fst (render env i ?w1)"
      using Some False by (simp add: setTick_def Let_def)
    from render_quiet_or_schedule [of ?w1 env i] show ?thesis
    proof
      assume "quiet ?w1 (fst (render env i ?w1))"
      with q1 have "quiet w (fst (render env i ?w1))" by (rule quiet_trans)
      with t show ?thesis by simp
    next
      assume "schedule i ?w1 (fst (render env i ?w1))"
      with q1 t show ?thesis by auto
    qed
  qed
qed

lemma inv_quiet:
  assumes "inv w" "quiet w w'"
  shows "inv w'"
proof -
  from assms(2) have hf: "heap_frame keeps (heap w) (heap w')"
    and eqs: "timeouts w' = timeouts w" "nextTimer w' = nextTimer w" "barInc w' = barInc w"
    by (simp_all add: quiet_def)
  have 1: "j \<le> barInc w' \<and> length (timeSamples b') \<le> sampleCountMax"
    if "heap w' j = Some b'" for j b'
  proof -
    from heap_frame_back [OF hf that] obtain b where b: "heap w j = Some b" "keeps b b'" by blast
    with assms(1) have "j \<le> barInc w \<and> length (timeSamples b) \<le> sampleCountMax"
      by (simp add: inv_def)
    with b(2) eqs show ?thesis by (simp add: keeps_def)
  qed
  have 2: "distinct (map fst (timeouts w'))" using assms(1) eqs by (simp add: inv_def)
  have 3: "t < nextTimer w' \<and> (\<exists>b. heap w' j = Some b \<and> writeLimit b = Some t)"
    if "(t, j) \<in> set (timeouts w')" for t j
  proof -
    from that eqs assms(1) obtain b where
      b: "t < nextTimer w" "heap w j = Some b" "writeLimit b = Some t"
      unfolding inv_def by metis
    from heap_frameD [OF hf b(2)] obtain b' where "heap w' j = Some b'" "keeps b b'" by blast
    with b eqs show ?thesis by (simp add: keeps_def)
  qed
  from 1 2 3 show ?thesis unfolding inv_def by blast
qed

lemma inv_schedule:
  assumes "inv w" "schedule i w w'"
  shows "inv w'"
proof -
  from assms(2) obtain me where me: "heap w i = Some me" "writeLimit me = None"
    and h: "heap w' = (heap w)(i \<mapsto> me\<lparr>writeLimit := Some (nextTimer w)\<rparr>)"
    and eqs: "timeouts w' = timeouts w @ [(nextTimer w, i)]" "nextTimer w' = Suc (nextTimer w)"
      "barInc w' = barInc w"
    unfolding schedule_def by blast
  have old: "t < nextTimer w \<and> (\<exists>b. heap w j = Some b \<and> writeLimit b = Some t)"
    if "(t, j) \<in> set (timeouts w)" for t j
    using assms(1) that unfolding inv_def by blast
  have noti: "j \<noteq> i" if "(t, j) \<in> set (timeouts w)" for t j
    using old [OF that] me by auto
  have 1: "j \<le> barInc w' \<and> length (timeSamples b') \<le> sampleCountMax"
    if "heap w' j = Some b'" for j b'
  proof (cases "j = i")
    case True
    with that h have "b' = me\<lparr>writeLimit := Some (nextTimer w)\<rparr>" by simp
    with assms(1) me(1) True eqs show ?thesis by (simp add: inv_def)
  next
    case False
    with that h have "heap w j = Some b'" by simp
    with assms(1) eqs show ?thesis by (simp add: inv_def)
  qed
  have fresh: "nextTimer w \<notin> fst ` set (timeouts w)"
  proof
    assume "nextTimer w \<in> fst ` set (timeouts w)"
    then obtain j where "(nextTimer w, j) \<in> set (timeouts w)" by auto
    from old [OF this] show False by simp
  qed
  have 2: "distinct (map fst (timeouts w'))"
    using assms(1) eqs fresh by (simp add: inv_def)
  have 3: "t < nextTimer w' \<and> (\<exists>b. heap w' j = Some b \<and> writeLimit b = Some t)"
    if "(t, j) \<in> set (timeouts w')" for t j
  proof (cases "(t, j) \<in> set (timeouts w)")
    case True
    from old [OF True] noti [OF True] h eqs show ?thesis by auto
  next
    case False
    with that eqs have "t = nextTimer w" "j = i" by auto
    with h eqs show ?thesis by simp
  qed
  from 1 2 3 show ?thesis unfolding inv_def by blast
qed

lemma sampleTimer_fields:
  "timeSamples (sampleTimer me) =
     (if length (timeSamples me @ [sample me]) > sampleCountMax
      then tl (timeSamples me @ [sample me]) else timeSamples me @ [sample me])"
  "sample (sampleTimer me) = Fin 0"
  "writeLimit (sampleTimer me) = writeLimit me"
  "complete (sampleTimer me) = complete me"
  by (simp_all add: sampleTimer_def Let_def)

lemma sampleTimer_window:
  "length (timeSamples me) \<le> sampleCountMax \<Longrightarrow>
   length (timeSamples (sampleTimer me)) \<le> sampleCountMax"
  by (simp add: sampleTimer_fields(1))

lemma inv_fireSample:
  assumes "inv w"
  shows "inv (fireSample i w)"
proof (cases "i \<in> set (intervals w) \<and> heap w i \<noteq> None")
  case False
  then have "fireSample i w = w" by (auto simp add: fireSample_def)
  with assms show ?thesis by simp
next
  case True
  then obtain me where me: "heap w i = Some me" by auto
  with True have f: "fireSample i w = w\<lparr>heap := (heap w)(i \<mapsto> sampleTimer me)\<rparr>"
    by (simp add: fireSample_def)
  from assms me have "i \<le> barInc w" "length (timeSamples me) \<le> sampleCountMax"
    by (simp_all add: inv_def)
  then have 1: "\<forall>j b. heap (fireSample i w) j = Some b \<longrightarrow>
      j \<le> barInc (fireSample i w) \<and> length (timeSamples b) \<le> sampleCountMax"
    using assms sampleTimer_window [of me] unfolding f inv_def by auto
  have 3: "\<forall>t j. (t, j) \<in> set (timeouts (fireSample i w)) \<longrightarrow>
      t < nextTimer (fireSample i w) \<and>
      (\<exists>b. heap (fireSample i w) j = Some b \<and> writeLimit b = Some t)"
  proof (intro allI impI)
    fix t j assume "(t, j) \<in> set (timeouts (fireSample i w))"
    then have m: "(t, j) \<in> set (timeouts w)" by (simp add: f)
    with assms obtain b where b: "t < nextTimer w" "heap w j = Some b" "writeLimit b = Some t"
      unfolding inv_def by blast
    show "t < nextTimer (fireSample i w) \<and>
      (\<exists>b. heap (fireSample i w) j = Some b \<and> writeLimit b = Some t)"
    proof (cases "j = i")
      case True
      with b me show ?thesis by (simp add: f sampleTimer_fields)
    next
      case False
      with b show ?thesis by (simp add: f)
    qed
  qed
  have 2: "distinct (map fst (timeouts (fireSample i w)))"
    using assms unfolding f inv_def by simp
  from 1 2 3 show ?thesis unfolding inv_def by blast
qed

lemma inv_drop_timeout:
  assumes "inv w"
  shows "inv (w\<lparr>timeouts := filter (\<lambda>p. fst p \<noteq> t) (timeouts w)\<rparr>)"
  using assms unfolding inv_def by (auto simp add: distinct_map_filter)

lemma inv_fireTimeout:
  assumes "inv w"
  shows "inv (fst (fireTimeout env t w))"
proof (cases "map_of (timeouts w) t")
  case None
  with assms show ?thesis by (simp add: fireTimeout_def)
next
  case (Some i)
  let ?w0 = "w\<lparr>timeouts := filter (\<lambda>p. fst p \<noteq> t) (timeouts w)\<rparr>"
  obtain w1 r where d: "doRender env i ?w0 = (w1, r)" by (cases "doRender env i ?w0")
  from Some have ti: "(t, i) \<in> set (timeouts w)" by (rule map_of_SomeD)
  have i0: "inv ?w0" by (rule inv_drop_timeout [OF assms])
  have q: "quiet ?w0 w1" using doRender_quiet [of ?w0 env i] d by simp
  have i1: "inv w1" by (rule inv_quiet [OF i0 q])
  have to: "timeouts w1 = filter (\<lambda>p. fst p \<noteq> t) (timeouts w)"
    using doRender_rest [of env i ?w0] d by simp
  show ?thesis
  proof (cases r)
    case (Some e)
    with \<open>map_of (timeouts w) t = Some i\<close> d i1 show ?thesis
      by (simp add: fireTimeout_def)
  next
    case None
    show ?thesis
    proof (cases "heap w1 i")
      case n: None
      with \<open>map_of (timeouts w) t = Some i\<close> None d i1 show ?thesis
        by (simp add: fireTimeout_def)
    next
      case (Some b)
      let ?w2 = "w1\<lparr>heap := (heap w1)(i \<mapsto> b\<lparr>writeLimit := None\<rparr>)\<rparr>"
      have r: "fst (fireTimeout env t w) = ?w2"
        using \<open>map_of (timeouts w) t = Some i\<close> None Some d
        by (simp add: fireTimeout_def)
      from assms ti obtain b0 where b0: "heap w i = Some b0" "writeLimit b0 = Some t"
        unfolding inv_def by blast
      from q have hf: "heap_frame keeps (heap w) (heap w1)" by (simp add: quiet_def)
      from heap_frameD [OF hf b0(1)] Some have wl: "writeLimit b = Some t"
        using b0(2) by (auto simp add: keeps_def)
      have none: "j \<noteq> i" if "(t', j) \<in> set (timeouts w1)" for t' j
      proof
        assume ji: "j = i"
        from that to have ne: "t' \<noteq> t" by auto
        from i1 that obtain b' where "heap w1 j = Some b'" "writeLimit b' = Some t'"
          unfolding inv_def by blast
        with ji Some wl ne show False by simp
      qed
      have 1: "\<forall>j b'. heap ?w2 j = Some b' \<longrightarrow>
          j \<le> barInc ?w2 \<and> length (timeSamples b') \<le> sampleCountMax"
      proof (intro allI impI)
        fix j b' assume h: "heap ?w2 j = Some b'"
        show "j \<le> barInc ?w2 \<and> length (timeSamples b') \<le> sampleCountMax"
        proof (cases "j = i")
          case True
          with h have "b' = b\<lparr>writeLimit := None\<rparr>" by simp
          moreover from i1 Some have "i \<le> barInc w1 \<and> length (timeSamples b) \<le> sampleCountMax"
            unfolding inv_def by blast
          ultimately show ?thesis using True by simp
        next
          case False
          with h have "heap w1 j = Some b'" by simp
          with i1 show ?thesis unfolding inv_def by simp
        qed
      qed
      have 2: "distinct (map fst (timeouts ?w2))" using i1 unfolding inv_def by simp
      have 3: "\<forall>t' j. (t', j) \<in> set (timeouts ?w2) \<longrightarrow>
          t' < nextTimer ?w2 \<and> (\<exists>b'. heap ?w2 j = Some b' \<and> writeLimit b' = Some t')"
      proof (intro allI impI)
        fix t' j assume m: "(t', j) \<in> set (timeouts ?w2)"
        then have m1: "(t', j) \<in> set (timeouts w1)" by simp
        from none [OF m1] have ne: "j \<noteq> i" .
        from i1 m1 obtain b' where "t' < nextTimer w1" "heap w1 j = Some b'" "writeLimit b' = Some t'"
          unfolding inv_def by blast
        with ne show "t' < nextTimer ?w2 \<and> (\<exists>b'. heap ?w2 j = Some b' \<and> writeLimit b' = Some t')"
          by simp
      qed
      from 1 2 3 have "inv ?w2" unfolding inv_def by blast
      with r show ?thesis by simp
    qed
  qed
qed

lemma inv_new:
  assumes "inv w"
  shows "inv (fst (ProgressBar_new env options w))"
proof (cases "case options of None \<Rightarrow> JUndefined | Some opts \<Rightarrow> opt_total opts")
  case (JNumber n)
  let ?i = "Suc (barInc w)"
  have fresh: "heap w ?i = None"
  proof (cases "heap w ?i")
    case (Some b)
    with assms have "?i \<le> barInc w" unfolding inv_def by blast
    then show ?thesis by simp
  qed simp
  from JNumber obtain me where
    w': "fst (ProgressBar_new env options w) =
           emit (w\<lparr>barInc := ?i, bars := bars w @ [?i], heap := (heap w)(?i \<mapsto> me),
                    intervals := intervals w @ [?i]\<rparr>) [OnStart ?i]"
    and me: "timeSamples me = []" "writeLimit me = None"
    by (simp add: ProgressBar_new_def Let_def)
  have noti: "j \<noteq> ?i" if "(t, j) \<in> set (timeouts w)" for t j
    using assms that fresh unfolding inv_def by force
  have 1: "\<forall>j b. heap (fst (ProgressBar_new env options w)) j = Some b \<longrightarrow>
      j \<le> barInc (fst (ProgressBar_new env options w)) \<and>
      length (timeSamples b) \<le> sampleCountMax"
    using assms me unfolding w' inv_def emit_def by (auto simp add: le_Suc_eq)
  have 2: "distinct (map fst (timeouts (fst (ProgressBar_new env options w))))"
    using assms unfolding w' inv_def emit_def by simp
  have 3: "\<forall>t j. (t, j) \<in> set (timeouts (fst (ProgressBar_new env options w))) \<longrightarrow>
      t < nextTimer (fst (ProgressBar_new env options w)) \<and>
      (\<exists>b. heap (fst (ProgressBar_new env options w)) j = Some b \<and> writeLimit b = Some t)"
    using assms noti unfolding w' inv_def emit_def by auto
  from 1 2 3 show ?thesis unfolding inv_def by blast
qed (use assms in \<open>auto simp add: ProgressBar_new_def Let_def inv_def le_Suc_eq\<close>)

lemma inv_step:
  assumes "inv w"
  shows "inv (step env a w)"
proof (cases a)
  case (New options)
  with assms show ?thesis by (simp add: inv_new)
next
  case (Tick i len)
  with assms tick_quiet_or_schedule [of w env i len] show ?thesis
    by (auto intro: inv_quiet inv_schedule)
next
  case (SetTick i n)
  with assms setTick_quiet_or_schedule [of w env i n] show ?thesis
    by (auto intro: inv_quiet inv_schedule)
next
  case (Render i)
  with assms render_quiet_or_schedule [of w env i] show ?thesis
    by (auto intro: inv_quiet inv_schedule)
next
  case (Interrupt i m)
  with assms show ?thesis by (simp add: inv_quiet [OF _ interrupt_quiet])
next
  case (Terminate i)
  with assms show ?thesis by (simp add: inv_quiet [OF _ terminate_quiet])
next
  case (FireSample i)
  with assms show ?thesis by (simp add: inv_fireSample)
next
  case (FireTimeout t)
  with assms show ?thesis by (simp add: inv_fireTimeout)
qed

lemma inv_run: "inv w \<Longrightarrow> inv (run as w)"
proof (induction as arbitrary: w)
  case Nil
  then show ?case by simp
next
  case (Cons x as)
  obtain env a where x: "x = (env, a)" by (cases x)
  from Cons.prems have "inv (step env a w)" by (rule inv_step)
  then have "inv (run as (step env a w))" by (rule Cons.IH)
  with x show ?case by simp
qed

lemma inv_world0: "inv world0"
  by (simp add: inv_def world0_def)

section \<open>The sample timer\<close>




section \<open>The debounce timeout\<close>

lemma pending_le_1:
  assumes "inv w"
  shows "length (pending i w) \<le> 1"
proof (cases "pending i w")
  case Nil
  then show ?thesis by simp
next
  case (Cons x xs)
  show ?thesis
  proof (cases xs)
    case Nil
    with Cons show ?thesis by simp
  next
    case (Cons y ys)
    with \<open>pending i w = x # xs\<close> have p: "pending i w = x # y # ys" by simp
    have "distinct (map fst (pending i w))"
      using assms unfolding pending_def inv_def by (simp add: distinct_map_filter)
    with p have ne: "fst x \<noteq> fst y" by simp
    from p have "x \<in> set (pending i w)" "y \<in> set (pending i w)" by simp_all
    then have "x \<in> set (timeouts w) \<and> snd x = i" "y \<in> set (timeouts w) \<and> snd y = i"
      unfolding pending_def by simp_all
    then have mx: "(fst x, i) \<in> set (timeouts w)" and my: "(fst y, i) \<in> set (timeouts w)"
      by (metis prod.collapse)+
    from assms mx obtain b where "heap w i = Some b" "writeLimit b = Some (fst x)"
      unfolding inv_def by blast
    moreover from assms my obtain b' where "heap w i = Some b'" "writeLimit b' = Some (fst y)"
      unfolding inv_def by blast
    ultimately have "fst x = fst y" by simp
    with ne show ?thesis by simp
  qed
qed

lemma render_dropped:
  assumes "heap w i = Some me" "debounceLimit me = Some d" "truthy d" "writeLimit me = Some t"
    "\<not> js_seq (curr me) (total me)"
  shows "render env i w = (w, None)"
  using assms by (simp add: render_def)

lemma doRender_draws:
  assumes me: "heap w i = Some me" "\<not> noRender me" "\<not> complete me"
    and str: "snd (doFormat env me (title me @ '' '' @ fmt me)) = Inr str"
  shows "snd (doRender env i w) = None"
    and "\<exists>me'. heap (fst (doRender env i w)) i = Some me' \<and> lastDraw me' = str \<and>
               render_frame me me'"
proof -
  let ?f = "title me @ '' '' @ fmt me"
  let ?w1 = "w\<lparr>heap := (heap w)(i \<mapsto> fst (doFormat env me ?f))\<rparr>"
  let ?sb = "stack_bars i str ?w1"
  have r: "doRender env i w = (draw i str (snd ?sb) (fst ?sb), None)"
    using me str by (simp add: doRender_def Let_def)
  then show "snd (doRender env i w) = None" by simp
  from doRender_heap [of w env i] me(1) obtain me' where
    me': "heap (fst (doRender env i w)) i = Some me'" "render_frame me me'"
    by (blast dest: heap_frameD)
  have "heap ?w1 i = Some (fst (doFormat env me ?f))" by simp
  with stack_bars_heap [of ?w1 i str] obtain me2 where me2: "heap (fst ?sb) i = Some me2"
    by (blast dest: heap_frameD)
  from draw_after [OF me2, of str "snd ?sb"] me'(1) r
  have "lastDraw me' = str \<or> complete me'" by auto
  moreover have "complete me' = complete me" by (rule render_frameD(5) [OF me'(2)])
  ultimately have "lastDraw me' = str" using me(3) by simp
  with me' show "\<exists>me'. heap (fst (doRender env i w)) i = Some me' \<and> lastDraw me' = str \<and>
               render_frame me me'" by blast
qed

lemma fireTimeout_renders_now:
  assumes t: "map_of (timeouts w) t = Some i"
    and me: "heap w i = Some me" "\<not> noRender me" "\<not> complete me"
    and str: "snd (doFormat env me (title me @ '' '' @ fmt me)) = Inr str"
  shows "\<exists>me'. heap (fst (fireTimeout env t w)) i = Some me' \<and> lastDraw me' = str \<and>
               writeLimit me' = None \<and> curr me' = curr me"
    and "t \<notin> fst ` set (timeouts (fst (fireTimeout env t w)))"
proof -
  let ?w0 = "w\<lparr>timeouts := filter (\<lambda>p. fst p \<noteq> t) (timeouts w)\<rparr>"
  obtain w1 r where d: "doRender env i ?w0 = (w1, r)" by (cases "doRender env i ?w0")
  have me0: "heap ?w0 i = Some me" using me(1) by simp
  from doRender_draws(1) [OF me0 me(2,3) str] d have r: "r = None" by simp
  from doRender_draws(2) [OF me0 me(2,3) str] d obtain me1 where
    me1: "heap w1 i = Some me1" "lastDraw me1 = str" "render_frame me me1" by auto
  have f: "fst (fireTimeout env t w) = w1\<lparr>heap := (heap w1)(i \<mapsto> me1\<lparr>writeLimit := None\<rparr>)\<rparr>"
    using t d r me1(1) by (simp add: fireTimeout_def)
  have "curr me1 = curr me" by (rule render_frameD(9) [OF me1(3)])
  with me1(2) show "\<exists>me'. heap (fst (fireTimeout env t w)) i = Some me' \<and> lastDraw me' = str \<and>
               writeLimit me' = None \<and> curr me' = curr me"
    unfolding f by simp
  have "timeouts w1 = filter (\<lambda>p. fst p \<noteq> t) (timeouts w)"
    using doRender_rest [of env i ?w0] d by simp
  then show "t \<notin> fst ` set (timeouts (fst (fireTimeout env t w)))"
    unfolding f by auto
qed

section \<open>Ticks below the total\<close>

lemma js_seq_not_gt: "js_seq a b \<Longrightarrow> \<not> js_gt a b"
  by (cases a; cases b) (simp_all add: js_seq_def)

lemma tick_len_rat:
  "tick_len (map_option Fin d) = Fin (case d of None \<Rightarrow> 1 | Some q \<Rightarrow> q)"
  by (cases d) (simp_all add: tick_len_def truthy_def)

lemma render_running:
  assumes "heap w i = Some me" "\<not> js_seq (curr me) (total me)"
  shows "\<exists>me'. heap (fst (render env i w)) i = Some me' \<and> curr me' = curr me \<and>
               total me' = total me \<and> complete me' = complete me"
proof (cases "case debounceLimit me of None \<Rightarrow> False | Some d \<Rightarrow> truthy d")
  case False
  with assms have r: "render env i w = doRender env i w" by (simp add: render_def)
  from doRender_heap [of w env i] assms(1) obtain me' where
    "heap (fst (doRender env i w)) i = Some me'" "render_frame me me'"
    by (blast dest: heap_frameD)
  with render_frameD(5,9,10) [of me me'] r show ?thesis by simp
next
  case True
  with assms show ?thesis by (cases "writeLimit me") (simp_all add: render_def)
qed

lemma tick_running:
  assumes me: "heap w i = Some me"
    and below: "\<not> js_gt (js_add (curr me) (tick_len len)) (total me)"
      "\<not> js_seq (js_add (curr me) (tick_len len)) (total me)"
  shows "\<exists>me'. heap (fst (tick env i len w)) i = Some me' \<and>
               curr me' = js_add (curr me) (tick_len len) \<and>
               total me' = total me \<and> complete me' = complete me"
proof -
  define me2 where
    "me2 = me\<lparr>sample := js_add (sample me) (tick_len len),
               curr := js_add (curr me) (tick_len len)\<rparr>"
  let ?me3 = "fst (doFormat env me2 (onTickFmt me2))"
  let ?w1 = "w\<lparr>heap := (heap w)(i \<mapsto> ?me3)\<rparr>"
  have f3: "curr ?me3 = js_add (curr me) (tick_len len)" "total ?me3 = total me"
    "complete ?me3 = complete me"
    by (simp_all add: doFormat_fst me2_def)
  show ?thesis
  proof (cases "snd (doFormat env me2 (onTickFmt me2))")
    case (Inl e)
    with me below have "fst (tick env i len w) = ?w1"
      by (simp add: tick_def Let_def me2_def)
    with f3 show ?thesis by simp
  next
    case (Inr s)
    let ?w2 = "emit ?w1 [OnTick i s, OnUpdate i]"
    have t: "fst (tick env i len w) = fst (render env i ?w2)"
      using me below Inr by (simp add: tick_def Let_def me2_def)
    have h: "heap ?w2 i = Some ?me3" by (simp add: emit_def)
    have "\<not> js_seq (curr ?me3) (total ?me3)" using below(2) f3 by simp
    from render_running [OF h this, of env] f3 t show ?thesis by simp
  qed
qed

lemma tick_len_int:
  "tick_len (map_option (\<lambda>d. Fin (of_int d)) l) = Fin (of_int (case l of None \<Rightarrow> 1 | Some d \<Rightarrow> d))"
  by (cases l) (simp_all add: tick_len_def truthy_def)

lemma ticks_running:
  fixes ds :: "(Env \<times> int option) list" and c :: int
  assumes "heap w i = Some me" "curr me = Fin (of_int c)" "total me = Fin t" "\<not> complete me"
    and "\<forall>k<length ds.
           of_int (c + sum_list (map (\<lambda>x. case snd x of None \<Rightarrow> 1 | Some d \<Rightarrow> d) (take (Suc k) ds))) < t"
  shows "\<exists>me'. heap (run (map (\<lambda>x. (fst x, Tick i (map_option (\<lambda>d. Fin (of_int d)) (snd x)))) ds) w) i
                 = Some me' \<and>
               curr me' = Fin (of_int (c + sum_list (map (\<lambda>x. case snd x of None \<Rightarrow> 1 | Some d \<Rightarrow> d) ds))) \<and>
               total me' = Fin t \<and> \<not> complete me'"
  using assms
proof (induction ds arbitrary: w me c)
  case Nil
  then show ?case by simp
next
  case (Cons x ds)
  let ?d = "case snd x of None \<Rightarrow> 1 | Some d \<Rightarrow> d"
  let ?l = "map_option (\<lambda>d. Fin (of_int d)) (snd x)"
  from Cons.prems(5) have "of_int (c + sum_list (map (\<lambda>x. case snd x of None \<Rightarrow> 1 | Some d \<Rightarrow> d)
      (take (Suc 0) (x # ds)))) < t"
    by blast
  then have lt: "of_int (c + ?d) < t" by simp
  have l: "js_add (curr me) (tick_len ?l) = Fin (of_int (c + ?d))"
    using Cons.prems(2) by (simp add: tick_len_int)
  have ngt: "\<not> js_gt (js_add (curr me) (tick_len ?l)) (total me)"
    and nseq: "\<not> js_seq (js_add (curr me) (tick_len ?l)) (total me)"
    using lt Cons.prems(3) unfolding l by (simp_all add: js_seq_def)
  from tick_running [OF Cons.prems(1) ngt nseq, of "fst x"] obtain me1 where
    me1: "heap (fst (tick (fst x) i ?l w)) i = Some me1"
      "curr me1 = Fin (of_int (c + ?d))" "total me1 = Fin t" "\<not> complete me1"
    using l Cons.prems(3,4) by auto
  have rest: "\<forall>k<length ds.
      of_int ((c + ?d) + sum_list (map (\<lambda>x. case snd x of None \<Rightarrow> 1 | Some d \<Rightarrow> d) (take (Suc k) ds))) < t"
  proof (intro allI impI)
    fix k assume "k < length ds"
    then have "Suc k < length (x # ds)" by simp
    with Cons.prems(5) have "of_int (c + sum_list (map (\<lambda>x. case snd x of None \<Rightarrow> 1 | Some d \<Rightarrow> d)
        (take (Suc (Suc k)) (x # ds)))) < t"
      by blast
    then show "of_int ((c + ?d) + sum_list (map (\<lambda>x. case snd x of None \<Rightarrow> 1 | Some d \<Rightarrow> d)
        (take (Suc k) ds))) < t"
      by (simp add: add.assoc)
  qed
  from Cons.IH [OF me1 rest] show ?case by (simp add: add.assoc)
qed

section \<open>Completion\<close>

lemma completions_emit:
  "completions j (emit w es) = completions j w + length (filter (\<lambda>e. e = OnComplete j) es)"
  by (simp add: completions_def emit_def)

lemma draw_completions: "completions j (draw i str b w) = completions j w"
  by (simp add: draw_def completions_def emit_def split: option.splits)

lemma completions_heap: "completions j (w\<lparr>heap := h\<rparr>) = completions j w"
  by (simp add: completions_def)

lemma stack_bars_completions: "completions j (fst (stack_bars i str w)) = completions j w"
  using stack_bars_rest [of i str w] by (simp add: completions_def)

lemma doRender_completions: "completions j (fst (doRender env i w)) = completions j w"
  by (simp add: doRender_def Let_def draw_completions stack_bars_completions completions_heap
        split: option.splits sum.splits)

lemma terminate_fields:
  "heap (terminate i w) = heap w" "intervals (terminate i w) = intervals w"
  "completions j (terminate i w) = completions j w"
  by (simp_all add: terminate_def emit_def completions_def split: option.splits)

lemma logReport_fields:
  "heap (logReport i w) = heap w" "intervals (logReport i w) = intervals w"
  "completions j (logReport i w) = completions j w"
  by (simp_all add: logReport_def emit_def completions_def split: option.splits)

lemma buildReport_fields:
  "intervals (buildReport i w) = intervals w"
  "completions j (buildReport i w) = completions j w"
  "heap w i = Some me \<Longrightarrow>
     \<exists>me'. heap (buildReport i w) i = Some me' \<and> report me' \<noteq> None \<and>
           complete me' = complete me"
  by (simp_all add: buildReport_def completions_def split: option.splits)

lemma set_complete_fields:
  "intervals (set_complete i w) = intervals w"
  "completions j (set_complete i w) = completions j w"
  "heap w i = Some me \<Longrightarrow>
     \<exists>me'. heap (set_complete i w) i = Some me' \<and> report me' = report me \<and> complete me'"
  by (simp_all add: set_complete_def completions_def split: option.splits)

lemma finish_completes:
  assumes me: "heap w i = Some me" and ok: "snd (finish env i w) = None"
  shows "completions i (fst (finish env i w)) = Suc (completions i w)"
    and "i \<notin> set (intervals (fst (finish env i w)))"
    and "\<exists>me'. heap (fst (finish env i w)) i = Some me' \<and> complete me' \<and> report me' \<noteq> None"
proof -
  let ?w0 = "w\<lparr>intervals := removeAll i (intervals w)\<rparr>"
  obtain w1 r where d: "doRender env i ?w0 = (w1, r)" by (cases "doRender env i ?w0")
  with ok have r: "r = None" by (cases r) (simp_all add: finish_def)
  let ?w2 = "buildReport i w1"
  let ?w3 = "terminate i ?w2"
  let ?w4 = "emit ?w3 [OnComplete i]"
  let ?w5 = "set_complete i ?w4"
  have f: "fst (finish env i w) = ?w5 \<or> fst (finish env i w) = logReport i ?w5"
    using d r by (simp add: finish_def Let_def)
  have c1: "completions i w1 = completions i w"
    using doRender_completions [of i env i ?w0] d by (simp add: completions_def)
  have c5: "completions i ?w5 = Suc (completions i w)"
    by (simp add: set_complete_fields completions_emit terminate_fields buildReport_fields c1)
  have i1: "intervals w1 = removeAll i (intervals w)"
    using doRender_rest [of env i ?w0] d by simp
  have i5: "intervals ?w5 = removeAll i (intervals w)"
    by (simp add: set_complete_fields emit_def terminate_fields buildReport_fields i1)
  from doRender_heap [of ?w0 env i] me d obtain me1 where me1: "heap w1 i = Some me1"
    by (auto dest: heap_frameD)
  from buildReport_fields(3) [OF me1] obtain me2 where
    me2: "heap ?w2 i = Some me2" "report me2 \<noteq> None" by blast
  then have "heap ?w4 i = Some me2" by (simp add: emit_def terminate_fields)
  from set_complete_fields(3) [OF this] me2(2) obtain me5 where
    me5: "heap ?w5 i = Some me5" "complete me5" "report me5 \<noteq> None" by auto
  from f c5 show "completions i (fst (finish env i w)) = Suc (completions i w)"
    by (auto simp add: logReport_fields)
  from f i5 show "i \<notin> set (intervals (fst (finish env i w)))"
    by (auto simp add: logReport_fields)
  from f me5 show "\<exists>me'. heap (fst (finish env i w)) i = Some me' \<and> complete me' \<and> report me' \<noteq> None"
    by (auto simp add: logReport_fields)
qed

lemma tick_reaches_total:
  assumes me: "heap w i = Some me"
    and eq: "js_seq (js_add (curr me) (tick_len len)) (total me)"
    and ok: "snd (tick env i len w) = None"
  shows "completions i (fst (tick env i len w)) = Suc (completions i w)"
    and "i \<notin> set (intervals (fst (tick env i len w)))"
    and "\<exists>me'. heap (fst (tick env i len w)) i = Some me' \<and> complete me' \<and> report me' \<noteq> None"
proof -
  define me2 where
    "me2 = me\<lparr>sample := js_add (sample me) (tick_len len),
               curr := js_add (curr me) (tick_len len)\<rparr>"
  let ?me3 = "fst (doFormat env me2 (onTickFmt me2))"
  let ?w1 = "w\<lparr>heap := (heap w)(i \<mapsto> ?me3)\<rparr>"
  have ngt: "\<not> js_gt (curr me2) (total me2)"
    using js_seq_not_gt [OF eq] by (simp add: me2_def)
  obtain s where s: "snd (doFormat env me2 (onTickFmt me2)) = Inr s"
    using me ngt ok by (cases "snd (doFormat env me2 (onTickFmt me2))")
      (simp_all add: tick_def Let_def me2_def)
  let ?w2 = "emit ?w1 [OnTick i s, OnUpdate i]"
  have h: "heap ?w2 i = Some ?me3" by (simp add: emit_def)
  have e3: "js_seq (curr ?me3) (total ?me3)"
    using eq by (simp add: doFormat_fst me2_def)
  have t: "tick env i len w = finish env i ?w2"
    using me ngt s h e3 by (simp add: tick_def Let_def me2_def render_def)
  have c2: "completions i ?w2 = completions i w"
    by (simp add: completions_def emit_def)
  from ok t have ok': "snd (finish env i ?w2) = None" by simp
  from finish_completes [OF h ok'] t c2
  show "completions i (fst (tick env i len w)) = Suc (completions i w)"
    and "i \<notin> set (intervals (fst (tick env i len w)))"
    and "\<exists>me'. heap (fst (tick env i len w)) i = Some me' \<and> complete me' \<and> report me' \<noteq> None"
    by simp_all
qed

lemma tick_beyond_total:
  assumes "heap w i = Some me" "js_gt (js_add (curr me) (tick_len len)) (total me)"
  shows "tick env i len w =
           (w\<lparr>heap := (heap w)(i \<mapsto> me\<lparr>sample := js_add (sample me) (tick_len len),
                                        curr := js_add (curr me) (tick_len len),
                                        complete := True\<rparr>)\<rparr>, None)"
  using assms by (simp add: tick_def Let_def)

section \<open>The bar\<close>













section \<open>Occurrences of a token\<close>





















section \<open>Completion by a tick\<close>

text \<open>
  C1. The claim: the first tick that makes the current value reach or pass the total
  runs the completion once (completion rendering, report, cancellation of the timer,
  hooks), and every later tick is a no-op. \<^verbatim>\<open>tick\<close> runs the completion only through
  \<^verbatim>\<open>render\<close>, which tests \<^verbatim>\<open>curr === total\<close>; where the current value passes the
  total, \<^verbatim>\<open>tick\<close> sets the flag \<^verbatim>\<open>complete\<close> and returns. A bar of total 3 that is
  ticked by 2 twice stands at 4: it is flagged complete, but the completion hook was
  never called, no report was built and the sample timer is still armed; and a third
  tick moves the current value to 5.
\<close>

theorem overshoot_skips_completion:
  "map_option (\<lambda>me. (curr me, total me, complete me, report me)) (heap (run overshoot world0) 1)
     = Some (Fin 4, Fin 3, True, None) \<and>
   completions 1 (run overshoot world0) = 0 \<and>
   intervals (run overshoot world0) = [1] \<and>
   map_option curr (heap (run (overshoot @ [(env_at 3000000, Tick 1 None)]) world0) 1)
     = Some (Fin 5)"
  by code_simp

section \<open>Construction\<close>

text \<open>
  C2, as stated: construction with \<^verbatim>\<open>total\<close> equal to 0 fails. The constructor tests
  only the type of \<^verbatim>\<open>total\<close>; with \<^verbatim>\<open>{total: 0}\<close> it returns the first instance.
\<close>

theorem total_zero_accepted:
  "snd (ProgressBar_new (env_at 0) (Some (options_of (JNumber (Fin 0)) None)) world0) = Inr 1"
  by code_simp

text \<open>
  C2, amended: construction throws the error \<^verbatim>\<open>total required\<close> exactly when
  \<^verbatim>\<open>total\<close> is not of type number (absent options included), and succeeds for every
  number, zero included. When it throws, no instance is stored, no timer is armed, no
  hook is called and nothing is cached or written.
\<close>

theorem construction_requires_number:
  "(snd (ProgressBar_new env options w) = Inl (Error ''total required'')) =
     (\<forall>t. (case options of None \<Rightarrow> JUndefined | Some opts \<Rightarrow> opt_total opts) \<noteq> JNumber t) \<and>
   ((\<exists>t. (case options of None \<Rightarrow> JUndefined | Some opts \<Rightarrow> opt_total opts) = JNumber t) \<longrightarrow>
      snd (ProgressBar_new env options w) = Inr (Suc (barInc w))) \<and>
   (snd (ProgressBar_new env options w) = Inl (Error ''total required'') \<longrightarrow>
      heap (fst (ProgressBar_new env options w)) = heap w \<and>
      intervals (fst (ProgressBar_new env options w)) = intervals w \<and>
      timeouts (fst (ProgressBar_new env options w)) = timeouts w \<and>
      barLines (fst (ProgressBar_new env options w)) = barLines w \<and>
      events (fst (ProgressBar_new env options w)) = events w)"
  by (cases "case options of None \<Rightarrow> JUndefined | Some opts \<Rightarrow> opt_total opts")
     (simp_all add: ProgressBar_new_def Let_def emit_def)

theorem construction_requires_number_witness:
  "snd (ProgressBar_new (env_at 0) (Some (options_of (JString ''10'') None)) world0)
     = Inl (Error ''total required'') \<and>
   heap (fst (ProgressBar_new (env_at 0) (Some (options_of (JString ''10'') None)) world0)) = heap world0 \<and>
   snd (ProgressBar_new (env_at 0) (Some (options_of (JNumber (Fin 10)) None)) world0) = Inr 1"
proof -
  have 1: "snd (ProgressBar_new (env_at 0) (Some (options_of (JString ''10'') None)) world0)
     = Inl (Error ''total required'')" by code_simp
  have 2: "\<exists>t. (case Some (options_of (JNumber (Fin 10)) None) of None \<Rightarrow> JUndefined
                  | Some opts \<Rightarrow> opt_total opts) = JNumber t"
    by (simp add: options_of_def)
  have 3: "barInc world0 = 0" by (simp add: world0_def)
  from 1 2 3 construction_requires_number [of "env_at 0" "Some (options_of (JString ''10'') None)" world0]
    construction_requires_number [of "env_at 0" "Some (options_of (JNumber (Fin 10)) None)" world0]
  show ?thesis by simp
qed

section \<open>Ticks below the total\<close>

text \<open>
  C3. A freshly constructed bar (current value 0, not complete) is ticked by a
  sequence of integer lengths, a tick without argument counting 1, each tick made while
  the bar is running: after every tick the sum of the lengths so far is below the
  total. Then after the sequence the bar is not complete and its current value is the
  sum \<open>S\<close> of the lengths; whatever the clock and the terminal are at each tick, and
  whether or not a tick throws while formatting. The lengths and the running sums are
  integers of magnitude at most \<open>2^53\<close>, which the additions of the program keep
  exact.
\<close>

theorem ticks_below_total:
  fixes ds :: "(Env \<times> int option) list"
  assumes "heap w i = Some me" "curr me = Fin 0" "total me = Fin t" "\<not> complete me"
    and "\<forall>x \<in> set ds. \<bar>case snd x of None \<Rightarrow> 1 | Some d \<Rightarrow> d\<bar> \<le> 9007199254740992"
    and "\<forall>k<length ds.
           \<bar>sum_list (map (\<lambda>x. case snd x of None \<Rightarrow> 1 | Some d \<Rightarrow> d) (take (Suc k) ds))\<bar>
             \<le> 9007199254740992 \<and>
           of_int (sum_list (map (\<lambda>x. case snd x of None \<Rightarrow> 1 | Some d \<Rightarrow> d) (take (Suc k) ds))) < t"
  shows "\<exists>me'. heap (run (map (\<lambda>x. (fst x, Tick i (map_option (\<lambda>d. Fin (of_int d)) (snd x)))) ds) w) i
                 = Some me' \<and>
               curr me' = Fin (of_int (sum_list (map (\<lambda>x. case snd x of None \<Rightarrow> 1 | Some d \<Rightarrow> d) ds))) \<and>
               \<not> complete me'"
  using ticks_running [of w i me 0 t ds] assms(1,2,3,4,6) by auto

theorem ticks_below_total_witness:
  "heap (fst (ProgressBar_new (env_at 0) (Some (options_of (JNumber (Fin 2)) None)) world0)) 1
     = Some bar_of_two \<and>
   curr bar_of_two = Fin 0 \<and> total bar_of_two = Fin 2 \<and> \<not> complete bar_of_two \<and>
   (\<exists>me'. heap (run [(env_at 1000000, Tick 1 (Some (Fin (- 1)))), (env_at 2000000, Tick 1 None),
                      (env_at 3000000, Tick 1 (Some (Fin 0))), (env_at 4000000, Tick 1 (Some (Fin 1)))]
                 (fst (ProgressBar_new (env_at 0) (Some (options_of (JNumber (Fin 2)) None)) world0))) 1
            = Some me' \<and>
          curr me' = Fin 1 \<and> \<not> complete me')"
proof -
  let ?ds = "[(env_at 1000000, Some (- 1)), (env_at 2000000, None),
              (env_at 3000000, Some 0), (env_at 4000000, Some (1 :: int))]"
  have h: "heap (fst (ProgressBar_new (env_at 0) (Some (options_of (JNumber (Fin 2)) None)) world0)) 1
             = Some bar_of_two"
    by code_simp
  have f: "curr bar_of_two = Fin 0" "total bar_of_two = Fin 2" "\<not> complete bar_of_two"
    by (simp_all add: bar_of_two_def)
  have n: "\<forall>x \<in> set ?ds. \<bar>case snd x of None \<Rightarrow> 1 | Some d \<Rightarrow> d\<bar> \<le> 9007199254740992"
    by simp
  have len: "length ?ds = Suc (Suc (Suc (Suc 0)))" by simp
  have p: "\<forall>k<length ?ds.
       \<bar>sum_list (map (\<lambda>x. case snd x of None \<Rightarrow> 1 | Some d \<Rightarrow> d) (take (Suc k) ?ds))\<bar>
         \<le> 9007199254740992 \<and>
       of_int (sum_list (map (\<lambda>x. case snd x of None \<Rightarrow> 1 | Some d \<Rightarrow> d) (take (Suc k) ?ds)))
         < (2 :: rat)"
    unfolding len by (simp add: All_less_Suc)
  from ticks_below_total [OF h f n p] show ?thesis
    using h f by simp
qed

section \<open>The layout of the bar\<close>




section \<open>The remaining time at a rate of zero\<close>

text \<open>
  C5. The claim: whenever the smoothed rate \<^verbatim>\<open>opsPerSec\<close> is 0, \<^verbatim>\<open>:eta\<close> renders as
  \<^verbatim>\<open>0min 0sec\<close>, never as NaN or Infinity. \<^verbatim>\<open>timeRemaining\<close> resets the quotient only
  when it is \<^verbatim>\<open>Infinity\<close>. A bar of total 1 with the format \<^verbatim>\<open>:eta\<close> that is ticked
  once, a quarter of a second after its construction and so before the first sample, has
  the rate 0 and nothing left: the quotient is \<open>0 / 0\<close>, and the final frame written
  to the stream reads \<^verbatim>\<open>-> NaNmin NaNsec\<close>.
\<close>

theorem eta_at_total_with_zero_rate:
  "map_option (\<lambda>me. (curr me, total me, opsPerSec me, timeRemaining me))
     (heap (run [(env_at 0, New (Some (options_of (JNumber (Fin 1)) (Some '':eta'')))),
                 (env_at 250000000, Tick 1 None)] world0) 1)
     = Some (Fin 1, Fin 1, Fin 0, ''NaNmin NaNsec'') \<and>
   StreamWrite 1 ''-> NaNmin NaNsec'' \<in> set (events (run
     [(env_at 0, New (Some (options_of (JNumber (Fin 1)) (Some '':eta'')))),
      (env_at 250000000, Tick 1 None)] world0))"
  by code_simp

section \<open>Suppression of a frame already drawn\<close>

text \<open>
  C6. If the frame that \<^verbatim>\<open>doRender\<close> formats is the frame last drawn, it writes
  nothing to the stream (no event is added); and of two renderings in a row, with the
  same reading of the clock and the terminal and nothing done in between, the second
  writes nothing.
\<close>

theorem render_suppressed:
  "(heap w i = Some me \<and> \<not> complete me \<and>
    snd (doFormat env me (title me @ '' '' @ fmt me)) = Inr (lastDraw me) \<longrightarrow>
      events (fst (doRender env i w)) = events w) \<and>
   events (fst (doRender env i (fst (doRender env i w)))) = events (fst (doRender env i w))"
  using doRender_no_write [of w i me env "lastDraw me"] doRender_twice [of env i w] by blast

theorem render_suppressed_witness:
  "heap world_drawn 1 = Some bar_drawn \<and> \<not> complete bar_drawn \<and>
   snd (doFormat (env_at 0) bar_drawn (title bar_drawn @ '' '' @ fmt bar_drawn))
     = Inr (lastDraw bar_drawn) \<and>
   events (fst (doRender (env_at 0) 1 world_drawn)) = events world_drawn \<and>
   length (events world_drawn) = 4"
proof -
  have h: "heap world_drawn 1 = Some bar_drawn \<and> \<not> complete bar_drawn \<and>
    snd (doFormat (env_at 0) bar_drawn (title bar_drawn @ '' '' @ fmt bar_drawn))
      = Inr (lastDraw bar_drawn)"
    by code_simp
  have l: "length (events world_drawn) = 4" by code_simp
  from h l render_suppressed [of world_drawn 1 bar_drawn "env_at 0"] show ?thesis by blast
qed

section \<open>Debounced rendering\<close>

text \<open>
  C7. In every world that a program reaches, an instance has at most one debounce
  timeout pending. A render request on an instance with a debounce interval that
  already holds a timeout (and is not at its total) changes nothing: it is dropped.
  When the timeout fires, the frame that is formatted and kept as the last drawn is
  the frame of the instance as it is at that moment, read at that moment; the handle
  is cleared and the timeout is no longer pending.
\<close>

theorem one_debounce_timer:
  "length (pending i (run as world0)) \<le> 1 \<and>
   (heap w i = Some me \<and> debounceLimit me = Some d \<and> truthy d \<and> writeLimit me = Some t \<and>
    \<not> js_seq (curr me) (total me) \<longrightarrow> render env i w = (w, None)) \<and>
   (map_of (timeouts w) t = Some i \<and> heap w i = Some me \<and> \<not> noRender me \<and> \<not> complete me \<and>
    snd (doFormat env me (title me @ '' '' @ fmt me)) = Inr str \<longrightarrow>
      (\<exists>me'. heap (fst (fireTimeout env t w)) i = Some me' \<and> lastDraw me' = str \<and>
             writeLimit me' = None \<and> curr me' = curr me) \<and>
      t \<notin> fst ` set (timeouts (fst (fireTimeout env t w))))"
proof (intro conjI impI)
  show "length (pending i (run as world0)) \<le> 1"
    by (rule pending_le_1 [OF inv_run [OF inv_world0]])
next
  assume "heap w i = Some me \<and> debounceLimit me = Some d \<and> truthy d \<and> writeLimit me = Some t \<and>
    \<not> js_seq (curr me) (total me)"
  then show "render env i w = (w, None)" by (intro render_dropped [of w i me d t]) simp_all
next
  assume a: "map_of (timeouts w) t = Some i \<and> heap w i = Some me \<and> \<not> noRender me \<and>
    \<not> complete me \<and> snd (doFormat env me (title me @ '' '' @ fmt me)) = Inr str"
  then show "\<exists>me'. heap (fst (fireTimeout env t w)) i = Some me' \<and> lastDraw me' = str \<and>
             writeLimit me' = None \<and> curr me' = curr me"
    by (intro fireTimeout_renders_now(1)) simp_all
  from a show "t \<notin> fst ` set (timeouts (fst (fireTimeout env t w)))"
    by (intro fireTimeout_renders_now(2) [of w t i me env str]) simp_all
qed

theorem one_debounce_timer_witness:
  "pending 1 (run burst world0) = [(0, 1)] \<and>
   length (pending 1 (run burst world0)) \<le> 1 \<and>
   heap (run (take 2 burst) world0) 1 = Some bar_burst1 \<and>
   render (env_at 2000000) 1 (run (take 2 burst) world0) = (run (take 2 burst) world0, None) \<and>
   heap (run burst world0) 1 = Some bar_burst3 \<and>
   map_of (timeouts (run burst world0)) 0 = Some 1 \<and>
   snd (doFormat (env_at 100000000) bar_burst3 (title bar_burst3 @ '' '' @ fmt bar_burst3))
     = Inr ''-> 3'' \<and>
   (\<exists>me'. heap (fst (fireTimeout (env_at 100000000) 0 (run burst world0))) 1 = Some me' \<and>
          lastDraw me' = ''-> 3'' \<and> writeLimit me' = None \<and> curr me' = Fin 3) \<and>
   0 \<notin> fst ` set (timeouts (fst (fireTimeout (env_at 100000000) 0 (run burst world0))))"
proof -
  have p: "pending 1 (run burst world0) = [(0, 1)]" by code_simp
  have h1: "heap (run (take 2 burst) world0) 1 = Some bar_burst1" by code_simp
  have f1: "debounceLimit bar_burst1 = Some (Fin 100) \<and> truthy (Fin 100) \<and>
            writeLimit bar_burst1 = Some 0 \<and> \<not> js_seq (curr bar_burst1) (total bar_burst1)"
    by code_simp
  have h3: "heap (run burst world0) 1 = Some bar_burst3" by code_simp
  have m: "map_of (timeouts (run burst world0)) 0 = Some 1" by code_simp
  have f3: "\<not> noRender bar_burst3 \<and> \<not> complete bar_burst3 \<and> curr bar_burst3 = Fin 3 \<and>
            snd (doFormat (env_at 100000000) bar_burst3 (title bar_burst3 @ '' '' @ fmt bar_burst3))
              = Inr ''-> 3''"
    by code_simp
  from one_debounce_timer [of 1 burst "run (take 2 burst) world0" bar_burst1 "Fin 100" 0
      "env_at 2000000"] h1 f1
  have a: "length (pending 1 (run burst world0)) \<le> 1 \<and>
     render (env_at 2000000) 1 (run (take 2 burst) world0) = (run (take 2 burst) world0, None)"
    by blast
  from one_debounce_timer [of 1 burst "run burst world0" bar_burst3 "Fin 100" 0
      "env_at 100000000" "''-> 3''"] h3 m f3
  have b: "(\<exists>me'. heap (fst (fireTimeout (env_at 100000000) 0 (run burst world0))) 1 = Some me' \<and>
          lastDraw me' = ''-> 3'' \<and> writeLimit me' = None \<and> curr me' = Fin 3) \<and>
     0 \<notin> fst ` set (timeouts (fst (fireTimeout (env_at 100000000) 0 (run burst world0))))"
    by simp
  from p h1 h3 m f3 a b show ?thesis by blast
qed

section \<open>The sample window\<close>



section \<open>What formatting writes\<close>

text \<open>
  C9, as stated: \<^verbatim>\<open>doFormat\<close> leaves every field of the instance unchanged and its
  string is determined by the state, the configuration and the column width. A bar
  fresh from the constructor holds the number 0 in \<^verbatim>\<open>percent\<close> and \<open>1/10000\<close> in
  \<^verbatim>\<open>elapsedTime\<close>; after one call of \<^verbatim>\<open>doFormat\<close> it holds the string \<^verbatim>\<open>"0"\<close> and
  the clock difference. The string for \<^verbatim>\<open>:elapsed\<close> differs between two readings of
  the clock on the same state.
\<close>

theorem doFormat_changes_fields:
  "fresh (JNumber (Fin 2)) None = Some bar_of_two \<and>
   percent bar_of_two = JNumber (Fin 0) \<and>
   elapsedTime bar_of_two = Fin (1 / 10000) \<and>
   percent (fst (doFormat (env_at 2000000000) bar_of_two '':elapsed'')) = JString ''0'' \<and>
   elapsedTime (fst (doFormat (env_at 2000000000) bar_of_two '':elapsed'')) = Fin 2 \<and>
   snd (doFormat (env_at 2000000000) bar_of_two '':elapsed'') = Inr ''0min 2sec'' \<and>
   snd (doFormat (env_at 0) bar_of_two '':elapsed'') = Inr ''0min 0sec''"
  by code_simp

text \<open>
  C9, amended: \<^verbatim>\<open>doFormat\<close> writes exactly three fields of the instance, \<^verbatim>\<open>percent\<close>
  (the percentage as a string) and, through \<^verbatim>\<open>elapsed\<close>, \<^verbatim>\<open>totalOpsPerSec\<close> and
  \<^verbatim>\<open>elapsedTime\<close>; every other field is unchanged. Its string does not depend on what
  it wrote: a second call at the same reading of the clock, column width and platform
  returns the same string (or throws the same error).
\<close>

theorem doFormat_writes_three_fields:
  "fst (doFormat env me f) =
     me\<lparr>percent := JString (toFixed0 (js_mul (js_div (curr me) (total me)) (Fin 100))),
        totalOpsPerSec :=
          js_div (js_floor (js_mul (js_div (curr me) (timeDiff env (startTime me))) (Fin 10)))
            (Fin 10),
        elapsedTime := timeDiff env (startTime me)\<rparr> \<and>
   snd (doFormat env (fst (doFormat env me f)) f) = snd (doFormat env me f)"
proof
  show "fst (doFormat env me f) =
     me\<lparr>percent := JString (toFixed0 (js_mul (js_div (curr me) (total me)) (Fin 100))),
        totalOpsPerSec :=
          js_div (js_floor (js_mul (js_div (curr me) (timeDiff env (startTime me))) (Fin 10)))
            (Fin 10),
        elapsedTime := timeDiff env (startTime me)\<rparr>"
    by (simp add: doFormat_fst bar_percent_def)
  have "same_view (fst (doFormat env me f)) me"
    by (simp add: doFormat_fst same_view_def)
  then show "snd (doFormat env (fst (doFormat env me f)) f) = snd (doFormat env me f)"
    by (rule doFormat_snd_cong)
qed

section \<open>Only the first occurrence of a token is replaced\<close>



end
